theory Spec2Isabelle
  imports Complex_Main
begin

unbundle bit_operations_syntax

section \<open>The mijia-temp service (src/modules/mijia-temp/mijia-temp.ts)\<close>

text \<open>
  The service polls a Bluetooth thermometer by running \<^verbatim>\<open>gatttool\<close> as a child
  process, decodes the notification lines the tool prints and writes the reading to a
  deepstream record. The class is event driven: its behaviour is the body of
  \<^verbatim>\<open>start\<close>, \<^verbatim>\<open>stop\<close>, \<^verbatim>\<open>update\<close>,
  \<^verbatim>\<open>closeChildProcess\<close> and of the three listeners that \<^verbatim>\<open>update\<close>
  attaches to each child process. Each body is a function on a \<open>session\<close>, the fields
  of the object together with what the runtime holds for it (the child processes and
  their listeners, the timers, the calls made on the record).
\<close>

subsection \<open>Constants\<close>

definition RETRY_TIMEOUT :: nat where
  "RETRY_TIMEOUT = 5000"

definition MAX_RETRY :: nat where
  "MAX_RETRY = 10"

subsection \<open>The string operations of the line listener\<close>

text \<open>
  A line is a \<open>string\<close>; a character stands for one code unit below 256 (the tool
  prints ASCII). The functions below are the JavaScript built-ins the listener calls, at
  the argument shapes it calls them with.
\<close>

text \<open>White space and line terminators below 256: what \<^verbatim>\<open>trim\<close> and the conversion of
  a string to a number strip.\<close>

definition isWhiteSpace :: "char \<Rightarrow> bool" where
  "isWhiteSpace c = (c \<in> set [CHR 0x09, CHR 0x0A, CHR 0x0B, CHR 0x0C, CHR 0x0D, CHR 0x20, CHR 0xA0])"

text \<open>\<^verbatim>\<open>s.indexOf(needle)\<close>: the index of the first occurrence, or -1.\<close>

fun indexOfFrom :: "nat \<Rightarrow> string \<Rightarrow> string \<Rightarrow> int" where
  "indexOfFrom k needle [] = (if needle = [] then int k else - 1)"
| "indexOfFrom k needle (c # cs) =
     (if take (length needle) (c # cs) = needle then int k
      else indexOfFrom (Suc k) needle cs)"

definition indexOf :: "string \<Rightarrow> string \<Rightarrow> int" where
  "indexOf s needle = indexOfFrom 0 needle s"

text \<open>\<^verbatim>\<open>s.substring(start)\<close>: a negative start counts as 0, one beyond the end gives
  the empty string.\<close>

definition substring :: "string \<Rightarrow> int \<Rightarrow> string" where
  "substring s start = drop (nat (max 0 start)) s"

text \<open>\<^verbatim>\<open>s.trim()\<close>.\<close>

definition trim :: "string \<Rightarrow> string" where
  "trim s = rev (dropWhile isWhiteSpace (rev (dropWhile isWhiteSpace s)))"

text \<open>\<^verbatim>\<open>s.split(sep)\<close> for a separator of one character: every occurrence splits, so
  two separators in a row give an empty token and the empty string gives one empty
  token.\<close>

fun split :: "char \<Rightarrow> string \<Rightarrow> string list" where
  "split sep [] = [[]]"
| "split sep (c # cs) =
     (if c = sep then [] # split sep cs
      else (case split sep cs of
              [] \<Rightarrow> [[c]]
            | t # ts \<Rightarrow> (c # t) # ts))"

text \<open>\<^verbatim>\<open>values[i]\<close> inside a template literal: an index out of range reads
  \<^verbatim>\<open>undefined\<close>, which the template prints as the word.\<close>

definition element :: "string list \<Rightarrow> nat \<Rightarrow> string option" where
  "element values i = (if i < length values then Some (values ! i) else None)"

definition template :: "string option \<Rightarrow> string" where
  "template v = (case v of None \<Rightarrow> ''undefined'' | Some t \<Rightarrow> t)"

subsection \<open>Numbers\<close>

text \<open>
  A JavaScript number as the listener can produce it: \<open>Num q\<close> is the double nearest to
  the rational \<open>q\<close>, \<open>NaN\<close> is not-a-number. An integer below \<open>2 ^ 53\<close> is a double
  itself and its quotient by 100 is rounded once, so \<open>Num\<close> of the exact quotient names
  the double the division returns. A hexadecimal literal of \<open>2 ^ 53\<close> or more is rounded
  before the division; the model does not follow its value and returns \<open>Big\<close>.
\<close>

datatype jsnum = Num rat | NaN | Big

definition isHexDigit :: "char \<Rightarrow> bool" where
  "isHexDigit c = (let n = (of_char c :: int) in
     (48 \<le> n \<and> n \<le> 57) \<or> (97 \<le> n \<and> n \<le> 102) \<or> (65 \<le> n \<and> n \<le> 70))"

definition hexDigitValue :: "char \<Rightarrow> int" where
  "hexDigitValue c = (let n = (of_char c :: int) in
     if 48 \<le> n \<and> n \<le> 57 then n - 48
     else if 97 \<le> n \<and> n \<le> 102 then n - 87
     else n - 55)"

definition hexValue :: "string \<Rightarrow> int" where
  "hexValue ds = foldl (\<lambda>a c. 16 * a + hexDigitValue c) 0 ds"

text \<open>The unary \<^verbatim>\<open>+\<close> on the string \<^verbatim>\<open>0x\<close> followed by \<open>rest\<close>: white space at the end
  is stripped, then the string must be a hexadecimal literal with at least one digit;
  any other string is \<open>NaN\<close>.\<close>

definition plus0x :: "string \<Rightarrow> jsnum" where
  "plus0x rest = (let ds = rev (dropWhile isWhiteSpace (rev rest)) in
     if ds \<noteq> [] \<and> list_all isHexDigit ds
     then (if hexValue ds < 2 ^ 53 then Num (of_int (hexValue ds)) else Big)
     else NaN)"

text \<open>\<^verbatim>\<open>x / 100\<close>.\<close>

definition div100 :: "jsnum \<Rightarrow> jsnum" where
  "div100 x = (case x of Num q \<Rightarrow> Num (q / 100) | NaN \<Rightarrow> NaN | Big \<Rightarrow> Big)"

text \<open>A non-negative integer printed in a template literal.\<close>

fun decimal :: "nat \<Rightarrow> string" where
  "decimal n = (if n < 10 then [char_of (48 + n)]
                else decimal (n div 10) @ [char_of (48 + n mod 10)])"

declare decimal.simps [simp del]

subsection \<open>The session\<close>

text \<open>The health states of the service registry that the class sets.\<close>

datatype State = OK | BUSY | PROBLEM | ERROR | INACTIVE

text \<open>The object written to the record, and the calls the class makes on the deepstream
  client and on the record it returns, in order.\<close>

record reading =
  temperature :: jsnum
  humidity :: jsnum
  time :: string

datatype sink_call = GetRecord string | RecordSet reading | RecordDiscard

text \<open>
  One spawned child process with what \<^verbatim>\<open>update\<close> attaches to it: the readline
  interface on its standard output (\<open>inputClosed\<close> after \<^verbatim>\<open>input.close()\<close>), the
  variable \<^verbatim>\<open>lineCounter\<close> of the closure, the number of \<^verbatim>\<open>once('exit')\<close> listeners
  that \<^verbatim>\<open>closeChildProcess\<close> has added and the number of \<^verbatim>\<open>SIGINT\<close> signals sent to
  it. \<open>exited\<close> holds once its exit event has been emitted.
\<close>

record child =
  spawnfile :: string
  spawnargs :: "string list"
  exited :: bool
  inputClosed :: bool
  lineCounter :: nat
  exitOnce :: nat
  sigints :: nat

record MijiaTempConfig =
  cfgMacAddress :: string
  recordName :: string
  cfgInterval :: "rat option"
  cfgGatttool :: "string option"

text \<open>
  The fields of the class (\<open>recordH\<close> is the field \<^verbatim>\<open>record\<close>; \<open>None\<close> is
  \<^verbatim>\<open>undefined\<close>), the last \<^verbatim>\<open>setState\<close> call, and the runtime's side: the child
  processes in spawn order (a process handle is its index), the interval timers created
  by \<^verbatim>\<open>setInterval\<close> (period, still active; a timer handle is its index), the pending
  \<^verbatim>\<open>setTimeout\<close> calls of the exit listener (their delays, oldest first) and the calls
  on the record store.
\<close>

record session =
  recordH :: "string option"
  macAddress :: string
  interval :: rat
  gatttool :: string
  timer :: "nat option"
  retryCounter :: nat
  gattProcess :: "nat option"
  health :: "(State \<times> string option) option"
  children :: "child list"
  intervalTimers :: "(rat \<times> bool) list"
  pendingTimeouts :: "nat list"
  sink :: "sink_call list"

text \<open>A newly constructed object: \<^verbatim>\<open>retryCounter\<close> is initialised to 0, the other fields
  are not assigned before \<^verbatim>\<open>start\<close> (the strings and the interval are not read before
  \<^verbatim>\<open>start\<close> assigns them).\<close>

definition fresh :: session where
  "fresh = \<lparr> recordH = None, macAddress = [], interval = 0, gatttool = [],
             timer = None, retryCounter = 0, gattProcess = None, health = None,
             children = [], intervalTimers = [], pendingTimeouts = [], sink = [] \<rparr>"

text \<open>\<^verbatim>\<open>this.setState(state, message)\<close> of the base class.\<close>

definition setState :: "State \<Rightarrow> string option \<Rightarrow> session \<Rightarrow> session" where
  "setState st msg s = s\<lparr>health := Some (st, msg)\<rparr>"

definition updChild :: "nat \<Rightarrow> (child \<Rightarrow> child) \<Rightarrow> session \<Rightarrow> session" where
  "updChild p f s = s\<lparr>children := (children s)[p := f (children s ! p)]\<rparr>"

subsection \<open>closeChildProcess\<close>

text \<open>The exceptions the class can raise: the TypeError of a method call on an undefined
  record, and the error with which \<^verbatim>\<open>child_process.spawn\<close> refuses its arguments.\<close>

datatype fault = TypeError | InvalidArgValue

text \<open>A promise is resolved, waits for the exit event of a child, or is rejected with an
  exception.\<close>

datatype promise = Resolved | Pending nat | Rejected fault

definition closeChildProcess :: "session \<Rightarrow> session \<times> promise" where
  "closeChildProcess s =
     (case gattProcess s of
        Some p \<Rightarrow>
          (updChild p (\<lambda>c. c\<lparr>exitOnce := Suc (exitOnce c), sigints := Suc (sigints c)\<rparr>) s,
           Pending p)
      | None \<Rightarrow> (s, Resolved))"

subsection \<open>update and its listeners\<close>

text \<open>
  A body that can raise returns the session it has reached together with the exception,
  if one was raised: what it assigned before the exception stays assigned.
\<close>

text \<open>The arguments that \<^verbatim>\<open>child_process.spawn\<close> refuses with a synchronous exception
  before any process exists: an empty file name and, in the current versions of the
  runtime, a null character in the file name or in an argument. A tool that cannot be
  executed is not among them: it is reported later, by the error event.\<close>

definition spawnRejects :: "string \<Rightarrow> string list \<Rightarrow> bool" where
  "spawnRejects file args =
     (file = [] \<or> CHR 0x00 \<in> set file \<or> list_ex (\<lambda>a. CHR 0x00 \<in> set a) args)"

text \<open>The spawn of \<^verbatim>\<open>update\<close>: a new child with its readline interface and its line
  counter at 0, stored in \<^verbatim>\<open>gattProcess\<close>; nothing is assigned when
  \<^verbatim>\<open>spawn\<close> raises.\<close>

definition argv :: "session \<Rightarrow> string list" where
  "argv s = [''--char-write-req'', ''-b'', macAddress s, ''-a'', ''0x0038'',
             ''-n'', ''0100'', ''--listen'']"

definition spawn :: "session \<Rightarrow> session \<times> fault option" where
  "spawn s =
     (if spawnRejects (gatttool s) (argv s) then (s, Some InvalidArgValue)
      else (s\<lparr>gattProcess := Some (length (children s)),
              children := children s @
                [\<lparr> spawnfile = gatttool s, spawnargs = argv s,
                   exited = False, inputClosed = False, lineCounter = 0, exitOnce = 0,
                   sigints = 0 \<rparr>]\<rparr>,
            None))"

definition update :: "session \<Rightarrow> session \<times> fault option" where
  "update s =
     (if retryCounter s = 0 then spawn (setState BUSY (Some ''updating values ...'') s)
      else if retryCounter s \<ge> MAX_RETRY then
        ((setState PROBLEM (Some ''unable to connect to device'') s)\<lparr>retryCounter := 0\<rparr>,
         None)
      else spawn (setState BUSY
             (Some (''updating values (retry '' @ decimal (retryCounter s) @ '') ...'')) s))"

text \<open>The listeners below belong to a child \<open>p\<close> that was spawned,
  \<open>p < length (children s)\<close>: the runtime has no event for another \<open>p\<close> (see
  \<open>enabled\<close> below).\<close>

text \<open>The listener of the error event of child \<open>p\<close>.\<close>

definition on_error :: "nat \<Rightarrow> session \<Rightarrow> session" where
  "on_error p s =
     setState ERROR (Some ''unable to launch gatttool process'')
       ((updChild p (\<lambda>c. c\<lparr>inputClosed := True\<rparr>) s)\<lparr>gattProcess := None\<rparr>)"

text \<open>The exit event of child \<open>p\<close> with exit code \<open>code\<close> (\<open>None\<close> is \<^verbatim>\<open>null\<close>, a child
  ended by a signal): first the listener attached by \<^verbatim>\<open>update\<close>, then the
  \<^verbatim>\<open>once\<close> listeners of \<^verbatim>\<open>closeChildProcess\<close>, each of which clears
  \<^verbatim>\<open>gattProcess\<close> and resolves its promise.\<close>

definition on_exit :: "nat \<Rightarrow> int option \<Rightarrow> session \<Rightarrow> session" where
  "on_exit p code s =
     (let s1 = (updChild p (\<lambda>c. c\<lparr>inputClosed := True\<rparr>) s)\<lparr>gattProcess := None\<rparr>;
          s2 = (if code = Some 0 \<or> code = Some 130
                then setState OK None (s1\<lparr>retryCounter := 0\<rparr>)
                else s1\<lparr>retryCounter := Suc (retryCounter s1),
                        pendingTimeouts := pendingTimeouts s1 @ [RETRY_TIMEOUT]\<rparr>)
      in (updChild p (\<lambda>c. c\<lparr>exited := True, exitOnce := 0\<rparr>) s2)\<lparr>gattProcess := None\<rparr>)"

text \<open>The listener of the line event of child \<open>p\<close>; \<open>now\<close> is what
  \<^verbatim>\<open>new Date().toISOString()\<close> returns. Reading \<^verbatim>\<open>set\<close> of an undefined record is a
  TypeError, raised before anything is assigned.\<close>

definition tokens :: "string \<Rightarrow> string list" where
  "tokens line = split (CHR '' '') (trim (substring line (indexOf line ''value:'' + 6)))"

definition decode :: "string \<Rightarrow> string \<Rightarrow> reading" where
  "decode line now =
     (let values = tokens line;
          temp = div100 (plus0x (template (element values 1) @ template (element values 0)));
          humid = plus0x (template (element values 2))
      in \<lparr> temperature = temp, humidity = humid, time = now \<rparr>)"

definition on_line :: "nat \<Rightarrow> string \<Rightarrow> string \<Rightarrow> session \<Rightarrow> fault + session" where
  "on_line p line now s =
     (if lineCounter (children s ! p) = 0
      then Inr (updChild p (\<lambda>c. c\<lparr>lineCounter := Suc (lineCounter c)\<rparr>) s)
      else (case recordH s of
              None \<Rightarrow> Inl TypeError
            | Some r \<Rightarrow>
                Inr (fst (closeChildProcess (s\<lparr>sink := sink s @ [RecordSet (decode line now)]\<rparr>)))))"

subsection \<open>start and stop\<close>

text \<open>\<^verbatim>\<open>start\<close> is an async function: an exception of \<^verbatim>\<open>update\<close> rejects its promise,
  and the fields, the record and the interval timer stay as assigned. The period is
  kept as it is passed to \<^verbatim>\<open>setInterval\<close>.\<close>

definition start :: "MijiaTempConfig \<Rightarrow> session \<Rightarrow> session \<times> promise" where
  "start config s =
     (let s1 = s\<lparr>macAddress := cfgMacAddress config,
                 interval := (case cfgInterval config of None \<Rightarrow> 300 | Some i \<Rightarrow> i) * 1000,
                 gatttool := (case cfgGatttool config of None \<Rightarrow> ''/usr/bin/gatttool''
                              | Some g \<Rightarrow> g)\<rparr>;
          s2 = s1\<lparr>recordH := Some (recordName config),
                  sink := sink s1 @ [GetRecord (recordName config)]\<rparr>;
          s3 = s2\<lparr>timer := Some (length (intervalTimers s2)),
                  intervalTimers := intervalTimers s2 @ [(interval s2, True)]\<rparr>;
          r = update (setState OK None s3)
      in (fst r, case snd r of None \<Rightarrow> Resolved | Some f \<Rightarrow> Rejected f))"

text \<open>\<^verbatim>\<open>clearInterval(handle)\<close>; an undefined handle does nothing.\<close>

definition clearInterval :: "nat option \<Rightarrow> session \<Rightarrow> session" where
  "clearInterval h s =
     (case h of
        None \<Rightarrow> s
      | Some i \<Rightarrow>
          (if i < length (intervalTimers s)
           then s\<lparr>intervalTimers := (intervalTimers s)[i := (fst (intervalTimers s ! i), False)]\<rparr>
           else s))"

text \<open>\<^verbatim>\<open>stop\<close> calls \<^verbatim>\<open>closeChildProcess\<close> and drops the promise it returns: the body
  has no \<^verbatim>\<open>await\<close>, so the promise of \<^verbatim>\<open>stop\<close> is resolved when the body ends.\<close>

definition stop :: "session \<Rightarrow> session \<times> promise" where
  "stop s =
     (let s1 = clearInterval (timer s) s;
          s2 = fst (closeChildProcess s1);
          s3 = (case recordH s2 of
                  Some r \<Rightarrow> s2\<lparr>sink := sink s2 @ [RecordDiscard]\<rparr>
                | None \<Rightarrow> s2)
      in (setState INACTIVE None s3, Resolved))"

subsection \<open>Executions\<close>

text \<open>
  What can happen to a session: the two public calls, a tick of an interval timer, the
  oldest pending retry timeout firing, and the events of a child process. The runtime
  delivers a tick only for a timer that is not cleared, fires a timeout only when one is
  pending, emits events only for a process that was spawned and emits the exit event of
  a process once; lines and errors may come at any moment of a spawned process. An
  event outside these halts the execution as \<open>Disabled\<close>; an exception that leaves
  a listener or a timer callback is uncaught and halts it as \<open>Crash\<close>, while an
  exception in \<^verbatim>\<open>start\<close> only rejects the promise its caller holds. The calls on the
  record store return normally.
\<close>

datatype event =
    Start MijiaTempConfig
  | Stop
  | Tick nat
  | RetryFire
  | ProcError nat
  | ProcExit nat "int option"
  | Line nat string string

datatype halt = Crash fault | Disabled

fun enabled :: "event \<Rightarrow> session \<Rightarrow> bool" where
  "enabled (Start config) s = True"
| "enabled Stop s = True"
| "enabled (Tick i) s = (i < length (intervalTimers s) \<and> snd (intervalTimers s ! i))"
| "enabled RetryFire s = (pendingTimeouts s \<noteq> [])"
| "enabled (ProcError p) s = (p < length (children s))"
| "enabled (ProcExit p code) s = (p < length (children s) \<and> \<not> exited (children s ! p))"
| "enabled (Line p line now) s = (p < length (children s))"

fun fire :: "event \<Rightarrow> session \<Rightarrow> fault + session" where
  "fire (Start config) s = Inr (fst (start config s))"
| "fire Stop s = Inr (fst (stop s))"
| "fire (Tick i) s =
     (case snd (update s) of None \<Rightarrow> Inr (fst (update s)) | Some f \<Rightarrow> Inl f)"
| "fire RetryFire s =
     (case snd (update (s\<lparr>pendingTimeouts := tl (pendingTimeouts s)\<rparr>)) of
        None \<Rightarrow> Inr (fst (update (s\<lparr>pendingTimeouts := tl (pendingTimeouts s)\<rparr>)))
      | Some f \<Rightarrow> Inl f)"
| "fire (ProcError p) s = Inr (on_error p s)"
| "fire (ProcExit p code) s = Inr (on_exit p code s)"
| "fire (Line p line now) s = on_line p line now s"

definition step :: "event \<Rightarrow> session \<Rightarrow> halt + session" where
  "step e s =
     (if enabled e s
      then (case fire e s of Inl f \<Rightarrow> Inl (Crash f) | Inr s' \<Rightarrow> Inr s')
      else Inl Disabled)"

fun run :: "event list \<Rightarrow> session \<Rightarrow> halt + session" where
  "run [] s = Inr s"
| "run (e # es) s = (case step e s of Inl h \<Rightarrow> Inl h | Inr s' \<Rightarrow> run es s')"

subsection \<open>Predicates of the statements\<close>

text \<open>A token that is one byte as the tool prints it: two hexadecimal digits.\<close>

definition isHexByte :: "string \<Rightarrow> bool" where
  "isHexByte t = (length t = 2 \<and> list_all isHexDigit t)"

text \<open>Two facts of every session reached from a new object. The record is acquired
  before anything can call \<^verbatim>\<open>update\<close> or a listener: while \<^verbatim>\<open>record\<close> is undefined
  there is no child, no pending timeout and no interval timer. And \<^verbatim>\<open>gattProcess\<close>,
  when set, is the child spawned last, whose exit event has not been emitted.\<close>

definition acquired :: "session \<Rightarrow> bool" where
  "acquired s = (recordH s = None \<longrightarrow>
       children s = [] \<and> pendingTimeouts s = [] \<and> intervalTimers s = [])"

definition slotLive :: "session \<Rightarrow> bool" where
  "slotLive s = (\<forall>p. gattProcess s = Some p \<longrightarrow>
       Suc p = length (children s) \<and> \<not> exited (children s ! p))"

text \<open>A configuration with the defaults, for the examples.\<close>

definition exampleConfig :: MijiaTempConfig where
  "exampleConfig = \<lparr> cfgMacAddress = ''4C:65:A8:D0:12:34'', recordName = ''sensor/mijia'',
                     cfgInterval = None, cfgGatttool = None \<rparr>"

text \<open>The session an execution from a new object ends in.\<close>

definition outcome :: "event list \<Rightarrow> session" where
  "outcome tr = (case run tr fresh of Inr s \<Rightarrow> s | Inl h \<Rightarrow> fresh)"

text \<open>The service is started and the tool has printed its first line.\<close>

definition headerSeen :: "event list" where
  "headerSeen =
     [Start exampleConfig,
      Line 0 ''Characteristic value was written successfully'' ''2020-01-01T00:00:00.000Z'']"

text \<open>Two abnormal exits in a row, each followed by its retry.\<close>

definition twoFailures :: "event list" where
  "twoFailures =
     [Start exampleConfig, ProcExit 0 (Some 1), RetryFire, ProcExit 1 (Some 1), RetryFire]"

text \<open>Ten abnormal exits in a row; the retry scheduled by the tenth is pending.\<close>

definition retriesExhausted :: "event list" where
  "retriesExhausted =
     [Start exampleConfig,
      ProcExit 0 (Some 1), RetryFire, ProcExit 1 (Some 1), RetryFire,
      ProcExit 2 (Some 1), RetryFire, ProcExit 3 (Some 1), RetryFire,
      ProcExit 4 (Some 1), RetryFire, ProcExit 5 (Some 1), RetryFire,
      ProcExit 6 (Some 1), RetryFire, ProcExit 7 (Some 1), RetryFire,
      ProcExit 8 (Some 1), RetryFire, ProcExit 9 (Some 1)]"

text \<open>The session that execution ends in: ten children, all exited, the counter at 10
  and one retry pending.\<close>

definition exitedChild :: child where
  "exitedChild =
     \<lparr> spawnfile = ''/usr/bin/gatttool'',
       spawnargs = [''--char-write-req'', ''-b'', ''4C:65:A8:D0:12:34'', ''-a'', ''0x0038'',
                    ''-n'', ''0100'', ''--listen''],
       exited = True, inputClosed = True, lineCounter = 0, exitOnce = 0, sigints = 0 \<rparr>"

definition exhausted :: session where
  "exhausted =
     \<lparr> recordH = Some ''sensor/mijia'', macAddress = ''4C:65:A8:D0:12:34'',
       interval = 300000, gatttool = ''/usr/bin/gatttool'', timer = Some 0,
       retryCounter = 10, gattProcess = None,
       health = Some (BUSY, Some ''updating values (retry 9) ...''),
       children = replicate 10 exitedChild, intervalTimers = [(300000, True)],
       pendingTimeouts = [RETRY_TIMEOUT], sink = [GetRecord ''sensor/mijia''] \<rparr>"

text \<open>One abnormal exit; its retry is pending.\<close>

definition afterFailure :: "event list" where
  "afterFailure = [Start exampleConfig, ProcExit 0 (Some 1)]"

text \<open>The trace holds a line event of child \<open>p\<close>.\<close>

definition hasLine :: "nat \<Rightarrow> event list \<Rightarrow> bool" where
  "hasLine p tr = (\<exists>line now. Line p line now \<in> set tr)"

text \<open>The events that can lead to a spawn: a new \<^verbatim>\<open>start\<close>, a tick of the interval
  timer, and an exit event, whose listener can schedule a retry. (A retry fires only if
  one is pending.)\<close>

fun cycleSource :: "event \<Rightarrow> bool" where
  "cycleSource (Start config) = True"
| "cycleSource (Tick i) = True"
| "cycleSource (ProcExit p code) = True"
| "cycleSource e = False"

text \<open>Counting: the line events of a trace, the \<^verbatim>\<open>set\<close> calls made on the record, and
  the children that have had their first line (the line counter is 0 or 1).\<close>

fun isLineEvent :: "event \<Rightarrow> bool" where
  "isLineEvent (Line p line now) = True"
| "isLineEvent e = False"

fun isSet :: "sink_call \<Rightarrow> bool" where
  "isSet (RecordSet r) = True"
| "isSet c = False"

definition setCalls :: "sink_call list \<Rightarrow> nat" where
  "setCalls cs = length (filter isSet cs)"

definition firstLinesSeen :: "session \<Rightarrow> nat" where
  "firstLinesSeen s = sum_list (map lineCounter (children s))"


text \<open>The service has been started.\<close>

definition started :: "event list" where
  "started = [Start exampleConfig]"

text \<open>The first child fails, and the interval timer ticks before the retry fires: a second
  child is spawned while the retry is pending.\<close>

definition retryThenTick :: "event list" where
  "retryThenTick = [Start exampleConfig, ProcExit 0 (Some 1), Tick 0]"

text \<open>The interval timer ticks while the first child is running and has printed its first
  line; and the first child exits cleanly after the second was spawned.\<close>

definition overlapped :: "event list" where
  "overlapped =
     [Start exampleConfig,
      Line 0 ''Characteristic value was written successfully'' ''2020-01-01T00:00:00.000Z'',
      Tick 0]"

definition slotCleared :: "event list" where
  "slotCleared =
     [Start exampleConfig, Tick 0, ProcExit 0 (Some 0),
      Line 1 ''Characteristic value was written successfully'' ''2020-01-01T00:05:00.000Z'']"

text \<open>The session an execution from a session \<open>s\<close> ends in.\<close>

definition outcomeFrom :: "event list \<Rightarrow> session \<Rightarrow> session" where
  "outcomeFrom tr s = (case run tr s of Inr s' \<Rightarrow> s' | Inl h \<Rightarrow> s)"


section \<open>Decoding\<close>

lemma hexValue_snoc: "hexValue (ds @ [c]) = 16 * hexValue ds + hexDigitValue c"
  by (simp add: hexValue_def)

lemma hexValue_append: "hexValue (a @ b) = hexValue a * 16 ^ length b + hexValue b"
proof (induction b rule: rev_induct)
  case Nil
  show ?case by (simp add: hexValue_def)
next
  case (snoc c b)
  have "hexValue (a @ b @ [c]) = 16 * hexValue (a @ b) + hexDigitValue c"
    using hexValue_snoc [of "a @ b" c] by simp
  then show ?case
    by (simp add: snoc.IH hexValue_snoc algebra_simps)
qed

lemma hexDigit_range: "isHexDigit c \<Longrightarrow> 0 \<le> hexDigitValue c \<and> hexDigitValue c < 16"
  by (auto simp: isHexDigit_def hexDigitValue_def Let_def)

lemma hexDigit_not_space: "isHexDigit c \<Longrightarrow> \<not> isWhiteSpace c"
  by (auto simp: isHexDigit_def isWhiteSpace_def Let_def)

lemma hexByte_cases: "isHexByte t \<Longrightarrow> \<exists>a b. t = [a, b] \<and> isHexDigit a \<and> isHexDigit b"
  by (cases t; cases "tl t") (auto simp: isHexByte_def)

lemma hexByte_range: "isHexByte t \<Longrightarrow> 0 \<le> hexValue t \<and> hexValue t < 256"
proof -
  assume "isHexByte t"
  then obtain a b where t: "t = [a, b]" and a: "isHexDigit a" and b: "isHexDigit b"
    using hexByte_cases by blast
  from hexDigit_range [OF a] hexDigit_range [OF b] show ?thesis
    by (simp add: t hexValue_def)
qed

lemma or_low_byte:
  assumes "0 \<le> l" and "l < 256"
  shows "push_bit 8 h OR l = h * 256 + (l::int)"
proof -
  have l: "take_bit 8 l = l"
    using assms by (simp add: take_bit_int_eq_self)
  have "push_bit 8 h + take_bit 8 l = push_bit 8 h OR take_bit 8 l"
    by (rule disjunctive_add) (auto simp: bit_push_bit_iff bit_take_bit_iff)
  then show ?thesis
    by (simp add: l push_bit_eq_mult)
qed

lemma plus0x_bytes:
  assumes "isHexByte hi" and "isHexByte lo"
  shows "plus0x (hi @ lo) = Num (of_int (push_bit 8 (hexValue hi) OR hexValue lo))"
proof -
  obtain a b where lo: "lo = [a, b]" and b: "isHexDigit b"
    using hexByte_cases [OF assms(2)] by blast
  have strip: "rev (dropWhile isWhiteSpace (rev (hi @ lo))) = hi @ lo"
    using hexDigit_not_space [OF b] by (simp add: lo)
  have digits: "list_all isHexDigit (hi @ lo)"
    using assms by (simp add: isHexByte_def)
  have len: "length lo = 2"
    using assms(2) by (simp add: isHexByte_def)
  have v: "hexValue (hi @ lo) = push_bit 8 (hexValue hi) OR hexValue lo"
    using hexByte_range [OF assms(2)]
    by (simp add: hexValue_append len or_low_byte)
  have "hexValue hi * 256 + hexValue lo < 2 ^ 53"
    using hexByte_range [OF assms(1)] hexByte_range [OF assms(2)] by simp
  then have small: "hexValue (hi @ lo) < 2 ^ 53"
    by (simp add: hexValue_append len)
  have ne: "hi @ lo \<noteq> []"
    by (simp add: lo)
  show ?thesis
    unfolding plus0x_def Let_def strip using digits small ne v by simp
qed

lemma plus0x_byte:
  assumes "isHexByte h"
  shows "plus0x h = Num (of_int (hexValue h))"
proof -
  obtain a b where h: "h = [a, b]" and b: "isHexDigit b"
    using hexByte_cases [OF assms] by blast
  have strip: "rev (dropWhile isWhiteSpace (rev h)) = h"
    using hexDigit_not_space [OF b] by (simp add: h)
  have digits: "list_all isHexDigit h"
    using assms by (simp add: isHexByte_def)
  have small: "hexValue h < 2 ^ 53"
    using hexByte_range [OF assms] by simp
  have ne: "h \<noteq> []"
    by (simp add: h)
  show ?thesis
    unfolding plus0x_def Let_def strip using digits small ne by simp
qed

lemma decode_bytes:
  assumes "tokens line = lo # hi # h # rest"
    and "isHexByte lo" and "isHexByte hi" and "isHexByte h"
  shows "decode line now =
    \<lparr> temperature = Num (of_int (push_bit 8 (hexValue hi) OR hexValue lo) / 100),
      humidity = Num (of_int (hexValue h)), time = now \<rparr>"
  using plus0x_bytes [OF assms(3) assms(2)] plus0x_byte [OF assms(4)]
  by (simp add: decode_def assms(1) element_def template_def div100_def)

section \<open>What update changes\<close>

lemma spawn_cases:
  "(spawnRejects (gatttool s) (argv s) \<and> spawn s = (s, Some InvalidArgValue)) \<or>
   (\<not> spawnRejects (gatttool s) (argv s) \<and> snd (spawn s) = None \<and>
    gattProcess (fst (spawn s)) = Some (length (children s)) \<and>
    (\<exists>c. children (fst (spawn s)) = children s @ [c] \<and> lineCounter c = 0 \<and> \<not> exited c \<and>
         sigints c = 0 \<and> exitOnce c = 0))"
  by (simp add: spawn_def)

lemma spawn_frame:
  "recordH (fst (spawn s)) = recordH s \<and> pendingTimeouts (fst (spawn s)) = pendingTimeouts s \<and>
   intervalTimers (fst (spawn s)) = intervalTimers s \<and> sink (fst (spawn s)) = sink s \<and>
   retryCounter (fst (spawn s)) = retryCounter s \<and> health (fst (spawn s)) = health s \<and>
   timer (fst (spawn s)) = timer s"
  by (simp add: spawn_def)

lemma update_frame:
  "recordH (fst (update s)) = recordH s \<and>
   pendingTimeouts (fst (update s)) = pendingTimeouts s \<and>
   intervalTimers (fst (update s)) = intervalTimers s \<and>
   sink (fst (update s)) = sink s \<and> timer (fst (update s)) = timer s"
  by (simp add: update_def spawn_frame setState_def)

lemma children_update:
  "children (fst (update s)) = children s \<or>
   (\<exists>c. children (fst (update s)) = children s @ [c] \<and> lineCounter c = 0)"
proof -
  have "children (fst (spawn u)) = children u \<or>
      (\<exists>c. children (fst (spawn u)) = children u @ [c] \<and> lineCounter c = 0)" for u
    using spawn_cases [of u] by auto
  from this [of "setState BUSY (Some ''updating values ...'') s"]
    this [of "setState BUSY
      (Some (''updating values (retry '' @ decimal (retryCounter s) @ '') ...'')) s"]
  show ?thesis
    by (simp add: update_def setState_def)
qed

lemma length_children_update: "length (children s) \<le> length (children (fst (update s)))"
  using children_update [of s] by auto

lemma lineCounter_update:
  assumes "q < length (children (fst (update s)))"
  shows "lineCounter (children (fst (update s)) ! q) =
         (if q < length (children s) then lineCounter (children s ! q) else 0)"
  using assms children_update [of s] by (auto simp: nth_append)

lemma update_spawns:
  assumes "retryCounter s < MAX_RETRY" and "\<not> spawnRejects (gatttool s) (argv s)"
  shows "snd (update s) = None \<and>
         length (children (fst (update s))) = Suc (length (children s)) \<and>
         take (length (children s)) (children (fst (update s))) = children s \<and>
         gattProcess (fst (update s)) = Some (length (children s)) \<and>
         \<not> exited (children (fst (update s)) ! length (children s)) \<and>
         lineCounter (children (fst (update s)) ! length (children s)) = 0 \<and>
         sigints (children (fst (update s)) ! length (children s)) = 0"
  using assms
  by (simp add: update_def spawn_def setState_def MAX_RETRY_def argv_def)

text \<open>When \<^verbatim>\<open>spawn\<close> refuses its arguments, \<^verbatim>\<open>update\<close> raises after it has set the
  health: no child exists and \<^verbatim>\<open>gattProcess\<close> is as before.\<close>

lemma update_raises:
  assumes "retryCounter s < MAX_RETRY" and "spawnRejects (gatttool s) (argv s)"
  shows "snd (update s) = Some InvalidArgValue \<and>
         children (fst (update s)) = children s \<and>
         gattProcess (fst (update s)) = gattProcess s \<and>
         pendingTimeouts (fst (update s)) = pendingTimeouts s"
  using assms
  by (simp add: update_def spawn_def setState_def MAX_RETRY_def argv_def)

text \<open>A configuration with an empty tool name: the promise of \<^verbatim>\<open>start\<close> is rejected and
  there is no child; the interval timer was set before, and its first tick raises the
  same exception with nobody to catch it.\<close>

lemma start_rejects:
  assumes "retryCounter s < MAX_RETRY"
  shows "snd (start (config\<lparr>cfgGatttool := Some []\<rparr>) s) = Rejected InvalidArgValue \<and>
         children (fst (start (config\<lparr>cfgGatttool := Some []\<rparr>) s)) = children s \<and>
         gattProcess (fst (start (config\<lparr>cfgGatttool := Some []\<rparr>) s)) = gattProcess s \<and>
         step (Tick (length (intervalTimers s))) (fst (start (config\<lparr>cfgGatttool := Some []\<rparr>) s))
           = Inl (Crash InvalidArgValue)"
  using assms
  by (simp add: start_def Let_def update_def spawn_def setState_def MAX_RETRY_def argv_def
      spawnRejects_def step_def nth_append)

text \<open>The start of a session is the assignments of \<^verbatim>\<open>start\<close> followed by
  \<^verbatim>\<open>update\<close>.\<close>

lemma start_update:
  "\<exists>u. fst (start config s) = fst (update u) \<and> children u = children s \<and>
       gattProcess u = gattProcess s \<and> recordH u = Some (recordName config) \<and>
       pendingTimeouts u = pendingTimeouts s"
proof -
  define u where "u = setState OK None
     (s\<lparr>macAddress := cfgMacAddress config,
        interval := (case cfgInterval config of None \<Rightarrow> 300 | Some i \<Rightarrow> i) * 1000,
        gatttool := (case cfgGatttool config of None \<Rightarrow> ''/usr/bin/gatttool'' | Some g \<Rightarrow> g),
        recordH := Some (recordName config),
        sink := sink s @ [GetRecord (recordName config)],
        timer := Some (length (intervalTimers s)),
        intervalTimers := intervalTimers s @
          [((case cfgInterval config of None \<Rightarrow> 300 | Some i \<Rightarrow> i) * 1000, True)]\<rparr>)"
  have "fst (start config s) = fst (update u)"
    by (simp add: start_def Let_def u_def)
  moreover have "children u = children s" "gattProcess u = gattProcess s"
    "recordH u = Some (recordName config)" "pendingTimeouts u = pendingTimeouts s"
    by (simp_all add: u_def setState_def)
  ultimately show ?thesis
    by blast
qed

lemma step_Tick:
  assumes "step (Tick i) s = Inr s'"
  shows "s' = fst (update s) \<and> snd (update s) = None"
  using assms by (auto simp: step_def split: if_splits option.splits)

lemma step_RetryFire:
  assumes "step RetryFire s = Inr s'"
  shows "pendingTimeouts s \<noteq> [] \<and>
         s' = fst (update (s\<lparr>pendingTimeouts := tl (pendingTimeouts s)\<rparr>)) \<and>
         snd (update (s\<lparr>pendingTimeouts := tl (pendingTimeouts s)\<rparr>)) = None"
  using assms by (auto simp: step_def split: if_splits option.splits)

lemma run_append:
  "run (tr @ tr') s = (case run tr s of Inl h \<Rightarrow> Inl h | Inr s' \<Rightarrow> run tr' s')"
  by (induction tr arbitrary: s) (auto split: sum.splits)

lemma run_snoc:
  "run (tr @ [e]) s = Inr s' \<longleftrightarrow> (\<exists>s0. run tr s = Inr s0 \<and> step e s0 = Inr s')"
  by (auto simp: run_append split: sum.splits)

section \<open>Facts of every reachable session\<close>

lemma acquired_fresh: "acquired fresh"
  by (simp add: acquired_def fresh_def)

lemma slotLive_fresh: "slotLive fresh"
  by (simp add: slotLive_def fresh_def)

lemma exited_nth_update:
  "exited c = exited (cs ! p) \<Longrightarrow> exited (cs[p := c] ! q) = exited (cs ! q)"
  by (cases "p < length cs"; cases "p = q") (simp_all add: list_update_beyond)

lemma inputClosed_nth_update:
  "inputClosed c = inputClosed (cs ! p) \<Longrightarrow> inputClosed (cs[p := c] ! q) = inputClosed (cs ! q)"
  by (cases "p < length cs"; cases "p = q") (simp_all add: list_update_beyond)

lemma lineCounter_nth_update:
  "lineCounter c = lineCounter (cs ! p) \<Longrightarrow> lineCounter (cs[p := c] ! q) = lineCounter (cs ! q)"
  by (cases "p < length cs"; cases "p = q") (simp_all add: list_update_beyond)

lemma slotLive_spawn: "slotLive s \<Longrightarrow> slotLive (fst (spawn s))"
  by (simp add: slotLive_def spawn_def)

lemma slotLive_update: "slotLive s \<Longrightarrow> slotLive (fst (update s))"
proof -
  assume a: "slotLive s"
  have "slotLive (setState st m s)" for st m
    using a by (simp add: slotLive_def setState_def)
  then have "slotLive (fst (spawn (setState st m s)))" for st m
    by (rule slotLive_spawn)
  moreover have "slotLive ((setState st m s)\<lparr>retryCounter := 0\<rparr>)" for st m
    using a by (simp add: slotLive_def setState_def)
  ultimately show ?thesis
    by (simp add: update_def)
qed

lemma slotLive_start: "slotLive s \<Longrightarrow> slotLive (fst (start config s))"
proof -
  assume a: "slotLive s"
  obtain u where u: "fst (start config s) = fst (update u)" "children u = children s"
    "gattProcess u = gattProcess s"
    using start_update [of config s] by blast
  have "slotLive u"
    using a u(2,3) by (simp add: slotLive_def)
  then show ?thesis
    unfolding u(1) by (rule slotLive_update)
qed

lemma slotLive_closeChildProcess: "slotLive s \<Longrightarrow> slotLive (fst (closeChildProcess s))"
  by (auto simp: slotLive_def closeChildProcess_def updChild_def split: option.splits)

lemma slotLive_stop: "slotLive s \<Longrightarrow> slotLive (fst (stop s))"
  by (auto simp: slotLive_def stop_def Let_def closeChildProcess_def updChild_def
      clearInterval_def setState_def split: option.splits)

lemma slotLive_on_error: "slotLive (on_error p s)"
  by (simp add: slotLive_def on_error_def setState_def)

lemma slotLive_on_exit: "slotLive (on_exit p code s)"
  by (simp add: slotLive_def on_exit_def Let_def updChild_def)

lemma slotLive_on_line:
  assumes "slotLive s" and "on_line p line now s = Inr s'"
  shows "slotLive s'"
proof (cases "lineCounter (children s ! p) = 0")
  case True
  then have "s' = updChild p (\<lambda>c. c\<lparr>lineCounter := Suc (lineCounter c)\<rparr>) s"
    using assms(2) by (simp add: on_line_def)
  then show ?thesis
    using assms(1) by (simp add: slotLive_def updChild_def exited_nth_update)
next
  case False
  then obtain r where "recordH s = Some r"
    and s': "s' = fst (closeChildProcess (s\<lparr>sink := sink s @ [RecordSet (decode line now)]\<rparr>))"
    using assms(2) by (auto simp: on_line_def split: option.splits)
  have "slotLive (s\<lparr>sink := sink s @ [RecordSet (decode line now)]\<rparr>)"
    using assms(1) by (simp add: slotLive_def)
  then show ?thesis
    unfolding s' by (rule slotLive_closeChildProcess)
qed

lemma slotLive_step:
  assumes "slotLive s" and "step e s = Inr s'"
  shows "slotLive s'"
proof (cases e)
  case (Start config)
  then show ?thesis using assms by (auto simp: step_def slotLive_start)
next
  case Stop
  then show ?thesis using assms by (auto simp: step_def slotLive_stop)
next
  case (Tick i)
  then show ?thesis using assms step_Tick [of i s s'] by (simp add: slotLive_update)
next
  case RetryFire
  have "slotLive (s\<lparr>pendingTimeouts := tl (pendingTimeouts s)\<rparr>)"
    using assms(1) by (simp add: slotLive_def)
  then have "slotLive (fst (update (s\<lparr>pendingTimeouts := tl (pendingTimeouts s)\<rparr>)))"
    by (rule slotLive_update)
  then show ?thesis using assms RetryFire step_RetryFire [of s s'] by simp
next
  case (ProcError p)
  then show ?thesis using assms by (auto simp: step_def slotLive_on_error split: if_splits)
next
  case (ProcExit p code)
  then show ?thesis using assms by (auto simp: step_def slotLive_on_exit split: if_splits)
next
  case (Line p line now)
  then show ?thesis
    using assms by (auto simp: step_def split: if_splits sum.splits dest: slotLive_on_line)
qed

lemma slotLive_run: "slotLive s \<Longrightarrow> run tr s = Inr s' \<Longrightarrow> slotLive s'"
proof (induction tr arbitrary: s)
  case Nil
  then show ?case by simp
next
  case (Cons e tr)
  then show ?case
    by (auto split: sum.splits dest: slotLive_step)
qed

lemma recordH_closeChildProcess: "recordH (fst (closeChildProcess s)) = recordH s"
  by (simp add: closeChildProcess_def updChild_def split: option.splits)

lemma recordH_stop: "recordH (fst (stop s)) = recordH s"
  by (simp add: stop_def Let_def setState_def recordH_closeChildProcess clearInterval_def
      split: option.splits)

lemma recordH_start: "recordH (fst (start config s)) = Some (recordName config)"
  using start_update [of config s] update_frame by auto

lemma recordH_on_error: "recordH (on_error p s) = recordH s"
  by (simp add: on_error_def setState_def updChild_def)

lemma recordH_on_exit: "recordH (on_exit p code s) = recordH s"
  by (simp add: on_exit_def Let_def setState_def updChild_def)

lemma recordH_on_line: "on_line p line now s = Inr s' \<Longrightarrow> recordH s' = recordH s"
  by (auto simp: on_line_def updChild_def recordH_closeChildProcess
      split: if_splits option.splits)

lemma recordH_step:
  assumes "step e s = Inr s'" and "recordH s \<noteq> None"
  shows "recordH s' \<noteq> None"
proof (cases e)
  case (Tick i)
  then show ?thesis using assms step_Tick [of i s s'] update_frame [of s] by simp
next
  case RetryFire
  then show ?thesis
    using assms step_RetryFire [of s s']
      update_frame [of "s\<lparr>pendingTimeouts := tl (pendingTimeouts s)\<rparr>"] by simp
next
  case (Line p line now)
  then show ?thesis
    using assms by (auto simp: step_def split: if_splits sum.splits dest: recordH_on_line)
qed (use assms in \<open>auto simp: step_def recordH_stop recordH_start recordH_on_error
        recordH_on_exit split: if_splits\<close>)

lemma acquired_step:
  assumes "acquired s" and "step e s = Inr s'"
  shows "acquired s'"
proof (cases "recordH s")
  case (Some r)
  then have "recordH s' \<noteq> None"
    using recordH_step [OF assms(2)] by simp
  then show ?thesis by (auto simp: acquired_def)
next
  case None
  then have empty: "children s = []" "pendingTimeouts s = []" "intervalTimers s = []"
    using assms(1) by (simp_all add: acquired_def)
  show ?thesis
  proof (cases e)
    case (Start config)
    then have "recordH s' \<noteq> None"
      using assms(2) by (auto simp: step_def recordH_start)
    then show ?thesis by (auto simp: acquired_def)
  next
    case Stop
    then have "s' = fst (stop s)"
      using assms(2) by (auto simp: step_def)
    then show ?thesis
      using None empty
      by (simp add: acquired_def stop_def Let_def setState_def closeChildProcess_def
          updChild_def clearInterval_def split: option.splits)
  qed (use assms(2) empty in \<open>simp_all add: step_def\<close>)
qed

lemma acquired_run: "acquired s \<Longrightarrow> run tr s = Inr s' \<Longrightarrow> acquired s'"
proof (induction tr arbitrary: s)
  case Nil
  then show ?case by simp
next
  case (Cons e tr)
  then show ?case
    by (auto split: sum.splits dest: acquired_step)
qed


section \<open>The children along an execution\<close>

lemma children_closeChildProcess:
  "length (children (fst (closeChildProcess s))) = length (children s) \<and>
   lineCounter (children (fst (closeChildProcess s)) ! q) = lineCounter (children s ! q)"
  by (simp add: closeChildProcess_def updChild_def lineCounter_nth_update split: option.splits)

lemma children_stop:
  "length (children (fst (stop s))) = length (children s) \<and>
   lineCounter (children (fst (stop s)) ! q) = lineCounter (children s ! q)"
proof -
  have "children (fst (stop s)) = children (fst (closeChildProcess (clearInterval (timer s) s)))"
    by (simp add: stop_def Let_def setState_def split: option.splits)
  moreover have "children (clearInterval (timer s) s) = children s"
    by (simp add: clearInterval_def split: option.splits)
  ultimately show ?thesis
    using children_closeChildProcess [of "clearInterval (timer s) s" q] by simp
qed

lemma children_on_error:
  "length (children (on_error p s)) = length (children s) \<and>
   lineCounter (children (on_error p s) ! q) = lineCounter (children s ! q)"
  by (simp add: on_error_def setState_def updChild_def lineCounter_nth_update)

lemma children_on_exit:
  "length (children (on_exit p code s)) = length (children s) \<and>
   lineCounter (children (on_exit p code s) ! q) = lineCounter (children s ! q)"
  by (simp add: on_exit_def Let_def setState_def updChild_def lineCounter_nth_update)

lemma children_start:
  "length (children s) \<le> length (children (fst (start config s)))"
  "q < length (children (fst (start config s))) \<Longrightarrow>
    lineCounter (children (fst (start config s)) ! q) =
      (if q < length (children s) then lineCounter (children s ! q) else 0)"
proof -
  obtain u where u: "fst (start config s) = fst (update u)" and ch: "children u = children s"
    using start_update [of config s] by blast
  show "length (children s) \<le> length (children (fst (start config s)))"
    using length_children_update [of u] by (simp add: u ch)
  show "lineCounter (children (fst (start config s)) ! q) =
      (if q < length (children s) then lineCounter (children s ! q) else 0)"
    if "q < length (children (fst (start config s)))"
    using lineCounter_update [of q u] that by (simp add: u ch)
qed

lemma children_on_line:
  assumes "on_line p line now s = Inr s'"
  shows "length (children s') = length (children s)"
    and "q \<noteq> p \<Longrightarrow> lineCounter (children s' ! q) = lineCounter (children s ! q)"
    and "p < length (children s) \<Longrightarrow> lineCounter (children s' ! p) =
           (if lineCounter (children s ! p) = 0 then 1 else lineCounter (children s ! p))"
  using assms
  by (auto simp: on_line_def updChild_def children_closeChildProcess
      split: if_splits option.splits)

lemma step_children:
  assumes "step e s = Inr s'"
  shows "length (children s) \<le> length (children s')"
proof (cases e)
  case (Start config)
  then show ?thesis using assms children_start(1) [of s config] by (auto simp: step_def)
next
  case Stop
  then show ?thesis using assms children_stop [of s] by (auto simp: step_def)
next
  case (Tick i)
  then show ?thesis using assms step_Tick [of i s s'] length_children_update [of s] by simp
next
  case RetryFire
  then show ?thesis
    using assms step_RetryFire [of s s']
      length_children_update [of "s\<lparr>pendingTimeouts := tl (pendingTimeouts s)\<rparr>"]
    by simp
next
  case (ProcError p)
  then show ?thesis using assms children_on_error [of p s]
    by (auto simp: step_def split: if_splits)
next
  case (ProcExit p code)
  then show ?thesis using assms children_on_exit [of p code s]
    by (auto simp: step_def split: if_splits)
next
  case (Line p line now)
  then show ?thesis
    using assms children_on_line(1) [of p line now s s']
    by (auto simp: step_def split: if_splits sum.splits)
qed

lemma step_lineCounter:
  assumes "step e s = Inr s'" and "q < length (children s')"
    and "\<And>line now. e \<noteq> Line q line now"
  shows "lineCounter (children s' ! q) =
         (if q < length (children s) then lineCounter (children s ! q) else 0)"
proof (cases e)
  case (Start config)
  then show ?thesis
    using assms children_start(2) [where q = q and config = config and s = s]
    by (auto simp: step_def)
next
  case Stop
  then show ?thesis using assms children_stop [of s q] by (auto simp: step_def)
next
  case (Tick i)
  then show ?thesis using assms step_Tick [of i s s'] lineCounter_update [of q s] by simp
next
  case RetryFire
  then show ?thesis
    using assms step_RetryFire [of s s']
      lineCounter_update [of q "s\<lparr>pendingTimeouts := tl (pendingTimeouts s)\<rparr>"]
    by simp
next
  case (ProcError p)
  then show ?thesis using assms children_on_error [of p s q]
    by (auto simp: step_def split: if_splits)
next
  case (ProcExit p code)
  then show ?thesis using assms children_on_exit [of p code s q]
    by (auto simp: step_def split: if_splits)
next
  case (Line p line now)
  then have "q \<noteq> p" using assms(3) by auto
  then show ?thesis
    using assms Line children_on_line(1) [of p line now s s']
      children_on_line(2) [of p line now s s' q]
    by (auto simp: step_def split: if_splits sum.splits)
qed

lemma step_line:
  assumes "step (Line q line now) s = Inr s'"
  shows "q < length (children s) \<and> length (children s') = length (children s) \<and>
         lineCounter (children s' ! q) =
           (if lineCounter (children s ! q) = 0 then 1 else lineCounter (children s ! q))"
  using assms children_on_line(1,3) [of q line now s s']
  by (auto simp: step_def split: if_splits sum.splits)

lemma hasLine_spawned:
  assumes "run tr fresh = Inr s" and "hasLine q tr"
  shows "q < length (children s)"
  using assms
proof (induction tr arbitrary: s rule: rev_induct)
  case Nil
  then show ?case by (simp add: hasLine_def)
next
  case (snoc e tr)
  from snoc.prems(1) obtain s0 where s0: "run tr fresh = Inr s0" and st: "step e s0 = Inr s"
    by (auto simp: run_snoc)
  show ?case
  proof (cases "hasLine q tr")
    case True
    then show ?thesis
      using snoc.IH [OF s0] step_children [OF st] by simp
  next
    case False
    then obtain line now where "e = Line q line now"
      using snoc.prems(2) by (auto simp: hasLine_def)
    then show ?thesis
      using step_line [of q line now s0 s] st by simp
  qed
qed

lemma lineCounter_trace:
  assumes "run tr fresh = Inr s" and "q < length (children s)"
  shows "lineCounter (children s ! q) = (if hasLine q tr then 1 else 0)"
  using assms
proof (induction tr arbitrary: s rule: rev_induct)
  case Nil
  then show ?case by (auto simp: fresh_def)
next
  case (snoc e tr)
  from snoc.prems(1) obtain s0 where s0: "run tr fresh = Inr s0" and st: "step e s0 = Inr s"
    by (auto simp: run_snoc)
  show ?case
  proof (cases "\<exists>line now. e = Line q line now")
    case True
    then obtain line now where e: "e = Line q line now" by blast
    from step_line [OF st [unfolded e]]
    have q: "q < length (children s0)"
      and lc: "lineCounter (children s ! q) =
                 (if lineCounter (children s0 ! q) = 0 then 1 else lineCounter (children s0 ! q))"
      by simp_all
    have "lineCounter (children s0 ! q) = (if hasLine q tr then 1 else 0)"
      using snoc.IH [OF s0 q] .
    moreover have "hasLine q (tr @ [e])"
      unfolding hasLine_def e by auto
    ultimately show ?thesis using lc by simp
  next
    case False
    then have ne: "\<And>line now. e \<noteq> Line q line now" by blast
    have h: "hasLine q (tr @ [e]) = hasLine q tr"
      using False by (auto simp: hasLine_def)
    show ?thesis
    proof (cases "q < length (children s0)")
      case True
      then show ?thesis
        using step_lineCounter [OF st snoc.prems(2) ne] snoc.IH [OF s0 True] h by simp
    next
      case False
      then have "\<not> hasLine q tr"
        using hasLine_spawned [OF s0] by auto
      then show ?thesis
        using step_lineCounter [OF st snoc.prems(2) ne] False h by simp
    qed
  qed
qed

section \<open>The line listener\<close>

lemma on_line_effect:
  assumes "on_line p line now s = Inr s'"
  shows "length (children s') = length (children s) \<and>
         exited (children s' ! q) = exited (children s ! q) \<and>
         inputClosed (children s' ! q) = inputClosed (children s ! q) \<and>
         retryCounter s' = retryCounter s \<and> health s' = health s \<and>
         gattProcess s' = gattProcess s \<and> pendingTimeouts s' = pendingTimeouts s \<and>
         intervalTimers s' = intervalTimers s"
  using assms
  by (auto simp: on_line_def updChild_def closeChildProcess_def exited_nth_update
      inputClosed_nth_update split: if_splits option.splits)

text \<open>A line that is not the first of its child: the reading is published and the child
  in \<^verbatim>\<open>gattProcess\<close>, if there is one, gets the listener and the signal.\<close>

lemma data_line_effect:
  assumes "recordH s = Some r" and "lineCounter (children s ! p) \<noteq> 0"
  shows "on_line p line now s =
    Inr (s\<lparr>sink := sink s @ [RecordSet (decode line now)],
           children :=
             (case gattProcess s of
                None \<Rightarrow> children s
              | Some q \<Rightarrow> (children s)[q := (children s ! q)
                  \<lparr>exitOnce := Suc (exitOnce (children s ! q)),
                   sigints := Suc (sigints (children s ! q))\<rparr>])\<rparr>)"
  using assms
  by (simp add: on_line_def closeChildProcess_def updChild_def split: option.splits)

section \<open>Counting lines and publishes\<close>

lemma map_lineCounter_update:
  "lineCounter c = lineCounter (cs ! p) \<Longrightarrow> map lineCounter (cs[p := c]) = map lineCounter cs"
  by (cases "p < length cs") (simp_all add: map_update list_update_beyond list_update_same_conv)

lemma firstLinesSeen_closeChildProcess:
  "firstLinesSeen (fst (closeChildProcess s)) = firstLinesSeen s"
  by (simp add: firstLinesSeen_def closeChildProcess_def updChild_def map_lineCounter_update
      split: option.splits)

lemma count_update:
  "firstLinesSeen (fst (update s)) = firstLinesSeen s \<and> sink (fst (update s)) = sink s"
  using children_update [of s] update_frame [of s] by (auto simp: firstLinesSeen_def)

lemma count_start:
  "firstLinesSeen (fst (start config s)) = firstLinesSeen s \<and>
   setCalls (sink (fst (start config s))) = setCalls (sink s)"
  by (simp add: start_def Let_def count_update)
     (simp add: firstLinesSeen_def setState_def setCalls_def)

lemma count_stop:
  "firstLinesSeen (fst (stop s)) = firstLinesSeen s \<and>
   setCalls (sink (fst (stop s))) = setCalls (sink s)"
  by (simp add: stop_def Let_def setState_def firstLinesSeen_def setCalls_def
      closeChildProcess_def updChild_def clearInterval_def map_lineCounter_update
      split: option.splits)

lemma count_on_error:
  "firstLinesSeen (on_error p s) = firstLinesSeen s \<and> sink (on_error p s) = sink s"
  by (simp add: on_error_def setState_def updChild_def firstLinesSeen_def
      map_lineCounter_update)

lemma count_on_exit:
  "firstLinesSeen (on_exit p code s) = firstLinesSeen s \<and> sink (on_exit p code s) = sink s"
  by (simp add: on_exit_def Let_def setState_def updChild_def firstLinesSeen_def
      map_lineCounter_update)

lemma count_on_line:
  assumes "on_line p line now s = Inr s'" and "p < length (children s)"
  shows "setCalls (sink s') + firstLinesSeen s' = Suc (setCalls (sink s) + firstLinesSeen s)"
proof (cases "lineCounter (children s ! p) = 0")
  case True
  then have s': "s' = s\<lparr>children := (children s)[p := (children s ! p)\<lparr>lineCounter := 1\<rparr>]\<rparr>"
    using assms(1) by (simp add: on_line_def updChild_def)
  have "sum_list ((map lineCounter (children s))[p := 1]) =
      sum_list (map lineCounter (children s)) + 1 - map lineCounter (children s) ! p"
    using assms(2) by (simp add: sum_list_update)
  then show ?thesis
    using True assms(2) by (simp add: s' firstLinesSeen_def map_update)
next
  case False
  then obtain r where
    s': "s' = fst (closeChildProcess (s\<lparr>sink := sink s @ [RecordSet (decode line now)]\<rparr>))"
    using assms(1) by (auto simp: on_line_def split: option.splits)
  have "sink s' = sink s @ [RecordSet (decode line now)]"
    unfolding s' by (simp add: closeChildProcess_def updChild_def split: option.splits)
  moreover have "firstLinesSeen s' = firstLinesSeen s"
    unfolding s' using firstLinesSeen_closeChildProcess
      [of "s\<lparr>sink := sink s @ [RecordSet (decode line now)]\<rparr>"]
    by (simp add: firstLinesSeen_def)
  ultimately show ?thesis
    by (simp add: setCalls_def)
qed

lemma step_count:
  assumes "step e s = Inr s'"
  shows "setCalls (sink s') + firstLinesSeen s' =
         setCalls (sink s) + firstLinesSeen s + (if isLineEvent e then 1 else 0)"
proof (cases e)
  case (Start config)
  then show ?thesis using assms count_start [of config s] by (auto simp: step_def)
next
  case Stop
  then show ?thesis using assms count_stop [of s] by (auto simp: step_def)
next
  case (Tick i)
  then show ?thesis using assms step_Tick [of i s s'] count_update [of s] by simp
next
  case RetryFire
  then show ?thesis
    using assms step_RetryFire [of s s']
      count_update [of "s\<lparr>pendingTimeouts := tl (pendingTimeouts s)\<rparr>"]
    by (simp add: firstLinesSeen_def)
next
  case (ProcError p)
  then show ?thesis using assms count_on_error [of p s]
    by (auto simp: step_def split: if_splits)
next
  case (ProcExit p code)
  then show ?thesis using assms count_on_exit [of p code s]
    by (auto simp: step_def split: if_splits)
next
  case (Line p line now)
  then show ?thesis
    using assms count_on_line [of p line now s s']
    by (auto simp: step_def split: if_splits sum.splits)
qed

lemma run_count:
  assumes "run tr fresh = Inr s"
  shows "setCalls (sink s) + firstLinesSeen s = length (filter isLineEvent tr)"
  using assms
proof (induction tr arbitrary: s rule: rev_induct)
  case Nil
  then show ?case by (auto simp: fresh_def setCalls_def firstLinesSeen_def)
next
  case (snoc e tr)
  from snoc.prems obtain s0 where s0: "run tr fresh = Inr s0" and st: "step e s0 = Inr s"
    by (auto simp: run_snoc)
  show ?case
    using step_count [OF st] snoc.IH [OF s0] by simp
qed

section \<open>Tokens that are not hexadecimal\<close>






section \<open>After an event that schedules nothing\<close>

lemma quiet_step:
  assumes "step e s = Inr s'" and "\<not> cycleSource e" and "pendingTimeouts s = []"
  shows "length (children s') = length (children s) \<and> pendingTimeouts s' = []"
proof (cases e)
  case Stop
  then have "s' = fst (stop s)" using assms(1) by (auto simp: step_def)
  moreover have "pendingTimeouts (fst (stop s)) = pendingTimeouts s"
    by (simp add: stop_def Let_def closeChildProcess_def updChild_def clearInterval_def
        setState_def split: option.splits)
  ultimately show ?thesis using children_stop [of s] assms(3) by simp
next
  case RetryFire
  then show ?thesis using assms by (simp add: step_def)
next
  case (ProcError p)
  then have "s' = on_error p s" using assms(1) by (auto simp: step_def split: if_splits)
  then show ?thesis
    using children_on_error [of p s] assms(3)
    by (simp add: on_error_def setState_def updChild_def)
next
  case (Line p line now)
  then have "on_line p line now s = Inr s'"
    using assms(1) by (auto simp: step_def split: if_splits sum.splits)
  from on_line_effect [OF this] assms(3) show ?thesis by simp
qed (use assms(2) in simp_all)

lemma quiet_run:
  assumes "run tr s = Inr s'" and "\<forall>e \<in> set tr. \<not> cycleSource e" and "pendingTimeouts s = []"
  shows "length (children s') = length (children s) \<and> pendingTimeouts s' = []"
  using assms
proof (induction tr arbitrary: s)
  case Nil
  then show ?case by simp
next
  case (Cons e tr)
  from Cons.prems(1) obtain s1 where s1: "step e s = Inr s1" and r: "run tr s1 = Inr s'"
    by (auto split: sum.splits)
  have q: "length (children s1) = length (children s) \<and> pendingTimeouts s1 = []"
    using quiet_step [OF s1] Cons.prems(2,3) by simp
  from Cons.IH [OF r] Cons.prems(2) q show ?case by simp
qed

section \<open>The execution with ten failures\<close>

lemma run_retriesExhausted: "run retriesExhausted fresh = Inr exhausted"
  unfolding retriesExhausted_def by code_simp

section \<open>The claims\<close>

subsection \<open>C1: a data line is decoded and published\<close>

text \<open>
  C1. Along any execution, when a line arrives for a child that has had a line before
  (so the line is not the discarded first one) and the first three tokens after the
  marker are hexadecimal bytes \<open>lo\<close>, \<open>hi\<close>, \<open>h\<close> (two digits each, as the tool prints
  them), the line listener returns normally and adds exactly one call to the record:
  \<^verbatim>\<open>set\<close> of the object with temperature \<open>((hi << 8) | lo) / 100\<close>, humidity the value
  of \<open>h\<close> and the time of the call.
\<close>

theorem line_publishes_reading:
  assumes "run tr fresh = Inr s"
    and "hasLine p tr"
    and "tokens line = lo # hi # h # rest"
    and "isHexByte lo" and "isHexByte hi" and "isHexByte h"
  shows "\<exists>s'. on_line p line now s = Inr s' \<and>
           sink s' = sink s @
             [RecordSet \<lparr> temperature =
                            Num (of_int (push_bit 8 (hexValue hi) OR hexValue lo) / 100),
                          humidity = Num (of_int (hexValue h)), time = now \<rparr>]"
proof -
  have p: "p < length (children s)"
    using hasLine_spawned [OF assms(1,2)] .
  have c: "lineCounter (children s ! p) \<noteq> 0"
    using lineCounter_trace [OF assms(1) p] assms(2) by simp
  have "acquired s"
    using acquired_run [OF acquired_fresh assms(1)] .
  moreover have "children s \<noteq> []"
    using p by auto
  ultimately obtain r where r: "recordH s = Some r"
    by (auto simp: acquired_def)
  have d: "decode line now =
      \<lparr> temperature = Num (of_int (push_bit 8 (hexValue hi) OR hexValue lo) / 100),
        humidity = Num (of_int (hexValue h)), time = now \<rparr>"
    using assms(3-6) by (rule decode_bytes)
  have "sink (fst (closeChildProcess (s\<lparr>sink := sink s @ [RecordSet (decode line now)]\<rparr>)))
      = sink s @ [RecordSet (decode line now)]"
    by (simp add: closeChildProcess_def updChild_def split: option.splits)
  then show ?thesis
    using c r by (simp add: on_line_def d)
qed

text \<open>The example of the specification: the tokens \<open>8e 01 3c\<close> give 3.98 degrees and
  60 percent.\<close>

theorem line_publishes_reading_witness:
  "run headerSeen fresh = Inr (outcome headerSeen) \<and>
   hasLine 0 headerSeen \<and>
   tokens ''Notification handle = 0x000e value: 8e 01 3c'' = [''8e'', ''01'', ''3c''] \<and>
   isHexByte ''8e'' \<and> isHexByte ''01'' \<and> isHexByte ''3c'' \<and>
   (\<exists>s'. on_line 0 ''Notification handle = 0x000e value: 8e 01 3c''
            ''2020-01-01T00:00:01.000Z'' (outcome headerSeen) = Inr s' \<and>
         sink s' =
           [GetRecord ''sensor/mijia'',
            RecordSet \<lparr> temperature = Num (398 / 100), humidity = Num 60,
                         time = ''2020-01-01T00:00:01.000Z'' \<rparr>])"
proof -
  have h1: "run headerSeen fresh = Inr (outcome headerSeen)"
    unfolding outcome_def headerSeen_def by code_simp
  have h2: "hasLine 0 headerSeen"
    by (auto simp: hasLine_def headerSeen_def)
  have h3: "tokens ''Notification handle = 0x000e value: 8e 01 3c'' = [''8e'', ''01'', ''3c'']"
    by code_simp
  have h4: "isHexByte ''8e''" "isHexByte ''01''" "isHexByte ''3c''"
    by code_simp+
  have v: "push_bit 8 (hexValue ''01'') OR hexValue ''8e'' = 398" "hexValue ''3c'' = 60"
    by code_simp+
  have k: "sink (outcome headerSeen) = [GetRecord ''sensor/mijia'']"
    unfolding outcome_def headerSeen_def by code_simp
  from line_publishes_reading [OF h1 h2 h3 h4, of "''2020-01-01T00:00:01.000Z''"]
  show ?thesis
    using h1 h2 h3 h4 by (simp add: v k)
qed

subsection \<open>C2: the exit listener\<close>

text \<open>
  C2. When the exit event of a child is emitted, \<^verbatim>\<open>gattProcess\<close> is cleared whatever
  the code. With code 0 or 130 the retry counter becomes 0 and the health becomes OK,
  whatever the counter was and whatever lines were read, and nothing is scheduled. With
  any other code (also none, for a child ended by a signal) the counter grows by exactly
  one and exactly one timeout of \<open>RETRY_TIMEOUT\<close> = 5000 ms is added to the pending ones,
  which makes the retry enabled; the interval timers are not touched in either case.
\<close>

theorem exit_resets_or_retries:
  "gattProcess (on_exit p code s) = None \<and>
   intervalTimers (on_exit p code s) = intervalTimers s \<and>
   timer (on_exit p code s) = timer s \<and>
   sink (on_exit p code s) = sink s \<and>
   RETRY_TIMEOUT = 5000 \<and>
   (if code = Some 0 \<or> code = Some 130
    then retryCounter (on_exit p code s) = 0 \<and>
         health (on_exit p code s) = Some (OK, None) \<and>
         pendingTimeouts (on_exit p code s) = pendingTimeouts s
    else retryCounter (on_exit p code s) = retryCounter s + 1 \<and>
         pendingTimeouts (on_exit p code s) = pendingTimeouts s @ [RETRY_TIMEOUT] \<and>
         health (on_exit p code s) = health s \<and>
         enabled RetryFire (on_exit p code s))"
  by (simp add: on_exit_def Let_def updChild_def setState_def RETRY_TIMEOUT_def)

text \<open>After two failures the counter is 2: a clean exit or an exit by interrupt resets
  it, a third failure or a death by signal makes it 3 and schedules one retry.\<close>

theorem exit_resets_or_retries_witness:
  "retryCounter (outcome twoFailures) = 2 \<and>
   retryCounter (on_exit 2 (Some 0) (outcome twoFailures)) = 0 \<and>
   health (on_exit 2 (Some 0) (outcome twoFailures)) = Some (OK, None) \<and>
   retryCounter (on_exit 2 (Some 130) (outcome twoFailures)) = 0 \<and>
   health (on_exit 2 (Some 130) (outcome twoFailures)) = Some (OK, None) \<and>
   gattProcess (on_exit 2 (Some 130) (outcome twoFailures)) = None \<and>
   retryCounter (on_exit 2 (Some 1) (outcome twoFailures)) = 3 \<and>
   pendingTimeouts (on_exit 2 (Some 1) (outcome twoFailures)) = [5000] \<and>
   retryCounter (on_exit 2 None (outcome twoFailures)) = 3 \<and>
   pendingTimeouts (on_exit 2 None (outcome twoFailures)) = [5000] \<and>
   gattProcess (on_exit 2 None (outcome twoFailures)) = None"
proof -
  have c: "retryCounter (outcome twoFailures) = 2"
    unfolding outcome_def twoFailures_def by code_simp
  have d: "pendingTimeouts (outcome twoFailures) = []"
    unfolding outcome_def twoFailures_def by code_simp
  show ?thesis
    using exit_resets_or_retries [of 2 "Some 0" "outcome twoFailures"]
      exit_resets_or_retries [of 2 "Some 130" "outcome twoFailures"]
      exit_resets_or_retries [of 2 "Some 1" "outcome twoFailures"]
      exit_resets_or_retries [of 2 None "outcome twoFailures"]
    by (simp add: c d)
qed

subsection \<open>C3: giving up after MAX_RETRY failures\<close>

text \<open>
  C3, as stated, adds that after such a call the next attempt happens only at the next
  tick of the interval timer. It fails where the tick itself makes the call: after the
  tenth abnormal exit the counter is 10 and the retry of that exit is pending; a tick
  that comes before the retry fires enters \<^verbatim>\<open>update\<close> with the counter at 10, which
  sets PROBLEM, resets the counter and spawns nothing; the pending retry then fires and
  spawns the eleventh child with the counter at 0.
\<close>

theorem problem_then_retry_counterexample:
  "run retriesExhausted fresh = Inr exhausted \<and>
   retryCounter exhausted = 10 \<and>
   MAX_RETRY \<le> retryCounter exhausted \<and>
   pendingTimeouts exhausted = [RETRY_TIMEOUT] \<and>
   run (retriesExhausted @ [Tick 0]) fresh = Inr (fst (update exhausted)) \<and>
   health (fst (update exhausted)) = Some (PROBLEM, Some ''unable to connect to device'') \<and>
   retryCounter (fst (update exhausted)) = 0 \<and>
   children (fst (update exhausted)) = children exhausted \<and>
   enabled RetryFire (fst (update exhausted)) \<and>
   run (retriesExhausted @ [Tick 0, RetryFire]) fresh =
     Inr (fst (update ((fst (update exhausted))\<lparr>pendingTimeouts := []\<rparr>))) \<and>
   length (children (fst (update ((fst (update exhausted))\<lparr>pendingTimeouts := []\<rparr>)))) = 11 \<and>
   gattProcess (fst (update ((fst (update exhausted))\<lparr>pendingTimeouts := []\<rparr>))) = Some 10 \<and>
   health (fst (update ((fst (update exhausted))\<lparr>pendingTimeouts := []\<rparr>))) =
     Some (BUSY, Some ''updating values ...'')"
proof -
  have u: "update exhausted =
      (exhausted\<lparr>health := Some (PROBLEM, Some ''unable to connect to device''),
                 retryCounter := 0\<rparr>, None)"
    by (simp add: update_def exhausted_def MAX_RETRY_def setState_def)
  have t: "enabled (Tick 0) exhausted"
    by (simp add: exhausted_def)
  have r1: "run (retriesExhausted @ [Tick 0]) fresh = Inr (fst (update exhausted))"
    using t by (simp add: run_append run_retriesExhausted step_def u)
  have e: "enabled RetryFire (fst (update exhausted))"
    unfolding u by (simp add: exhausted_def)
  have tl: "tl (pendingTimeouts (fst (update exhausted))) = []"
    unfolding u by (simp add: exhausted_def)
  have n: "snd (update ((fst (update exhausted))\<lparr>pendingTimeouts := []\<rparr>)) = None"
    unfolding u
    by (simp add: update_def spawn_def setState_def exhausted_def spawnRejects_def argv_def)
  have st: "step RetryFire (fst (update exhausted)) =
      Inr (fst (update ((fst (update exhausted))\<lparr>pendingTimeouts := []\<rparr>)))"
    using e n by (simp add: step_def tl)
  have r2: "run (retriesExhausted @ [Tick 0, RetryFire]) fresh =
      Inr (fst (update ((fst (update exhausted))\<lparr>pendingTimeouts := []\<rparr>)))"
    using run_append [of "retriesExhausted @ [Tick 0]" "[RetryFire]" fresh] r1 st by simp
  have f: "length (children (fst (update ((fst (update exhausted))\<lparr>pendingTimeouts := []\<rparr>)))) = 11"
    "gattProcess (fst (update ((fst (update exhausted))\<lparr>pendingTimeouts := []\<rparr>))) = Some 10"
    "health (fst (update ((fst (update exhausted))\<lparr>pendingTimeouts := []\<rparr>))) =
       Some (BUSY, Some ''updating values ...'')"
    unfolding u
    by (simp_all add: update_def spawn_def setState_def exhausted_def spawnRejects_def argv_def)
  have g: "retryCounter exhausted = 10" "pendingTimeouts exhausted = [RETRY_TIMEOUT]"
    by (simp_all add: exhausted_def)
  have h: "health (fst (update exhausted)) = Some (PROBLEM, Some ''unable to connect to device'')"
    "retryCounter (fst (update exhausted)) = 0"
    "children (fst (update exhausted)) = children exhausted"
    unfolding u by simp_all
  show ?thesis
    using run_retriesExhausted r1 e r2 f g h by (simp add: MAX_RETRY_def)
qed

text \<open>
  C3, amended. A call of \<^verbatim>\<open>update\<close> entered with the retry counter at \<open>MAX_RETRY\<close> or
  more sets the health to PROBLEM with the message, resets the counter to 0 and changes
  nothing else: no child is spawned, no listener attached, no timeout scheduled, and no
  exception is raised. The timeouts that were pending stay pending and can start the
  next attempt; the next attempt waits for the next tick of the interval timer only if
  no retry was pending when the call was entered.
\<close>

theorem update_gives_up:
  assumes "MAX_RETRY \<le> retryCounter s"
  shows "update s = (s\<lparr>health := Some (PROBLEM, Some ''unable to connect to device''),
                       retryCounter := 0\<rparr>, None) \<and>
         children (fst (update s)) = children s \<and>
         gattProcess (fst (update s)) = gattProcess s \<and>
         pendingTimeouts (fst (update s)) = pendingTimeouts s \<and>
         intervalTimers (fst (update s)) = intervalTimers s \<and>
         enabled RetryFire (fst (update s)) = (pendingTimeouts s \<noteq> [])"
  using assms by (simp add: update_def MAX_RETRY_def setState_def)

theorem update_gives_up_witness:
  "MAX_RETRY \<le> retryCounter exhausted \<and>
   update exhausted =
     (exhausted\<lparr>health := Some (PROBLEM, Some ''unable to connect to device''),
                retryCounter := 0\<rparr>, None) \<and>
   children (fst (update exhausted)) = children exhausted \<and>
   pendingTimeouts (fst (update exhausted)) = [RETRY_TIMEOUT]"
proof -
  have h: "MAX_RETRY \<le> retryCounter exhausted"
    by (simp add: MAX_RETRY_def exhausted_def)
  have p: "pendingTimeouts exhausted = [RETRY_TIMEOUT]"
    by (simp add: exhausted_def)
  from update_gives_up [OF h] h p show ?thesis
    by simp
qed

subsection \<open>C4: stop does not wait for the child\<close>

text \<open>Whatever the session, \<^verbatim>\<open>stop\<close> returns a resolved promise and leaves the child in
  \<^verbatim>\<open>gattProcess\<close> where it is, exited or not.\<close>

lemma stop_does_not_wait:
  assumes "gattProcess s = Some p"
  shows "snd (stop s) = Resolved \<and> gattProcess (fst (stop s)) = Some p \<and>
         exited (children (fst (stop s)) ! p) = exited (children s ! p)"
  using assms
  by (simp add: stop_def Let_def closeChildProcess_def updChild_def clearInterval_def
      setState_def exited_nth_update split: option.splits)

text \<open>
  C4 does not hold of the code. \<^verbatim>\<open>closeChildProcess\<close> returns a promise that is
  resolved by the exit event of the child, but \<^verbatim>\<open>stop\<close> does not await it. Stopping a
  started service whose child is running: the promise of \<^verbatim>\<open>closeChildProcess\<close> is
  pending on child 0, the promise of \<^verbatim>\<open>stop\<close> is resolved, and in the session
  \<^verbatim>\<open>stop\<close> leaves, \<^verbatim>\<open>gattProcess\<close> still holds child 0, which has been sent one
  \<^verbatim>\<open>SIGINT\<close> and has not exited, while the health is already INACTIVE.
\<close>

theorem stop_resolves_before_exit:
  "run [Start exampleConfig] fresh = Inr (outcome [Start exampleConfig]) \<and>
   gattProcess (outcome [Start exampleConfig]) = Some 0 \<and>
   \<not> exited (children (outcome [Start exampleConfig]) ! 0) \<and>
   snd (closeChildProcess (outcome [Start exampleConfig])) = Pending 0 \<and>
   snd (stop (outcome [Start exampleConfig])) = Resolved \<and>
   gattProcess (fst (stop (outcome [Start exampleConfig]))) = Some 0 \<and>
   \<not> exited (children (fst (stop (outcome [Start exampleConfig]))) ! 0) \<and>
   sigints (children (fst (stop (outcome [Start exampleConfig]))) ! 0) = 1 \<and>
   health (fst (stop (outcome [Start exampleConfig]))) = Some (INACTIVE, None)"
  unfolding outcome_def by code_simp

subsection \<open>C5: the first line of every child is discarded\<close>

text \<open>
  C5. Along any execution the line counter of a child is 0 until the first line event
  of that child and 1 from then on: the counter belongs to the child, and the lines of
  other children do not move it. At the first line event of a child, whatever the line
  holds, the listener only sets the counter to 1: nothing is parsed, the calls on the
  record are as before and no signal is sent.
\<close>

theorem first_line_discarded:
  assumes "run tr fresh = Inr s" and "p < length (children s)"
  shows "lineCounter (children s ! p) = (if hasLine p tr then 1 else 0) \<and>
         (\<not> hasLine p tr \<longrightarrow>
            on_line p line now s =
              Inr (s\<lparr>children := (children s)[p := (children s ! p)\<lparr>lineCounter := 1\<rparr>]\<rparr>))"
  using lineCounter_trace [OF assms]
  by (simp add: on_line_def updChild_def)

text \<open>A first line that holds the marker and three bytes is discarded like any other.\<close>

theorem first_line_discarded_witness:
  "run started fresh = Inr (outcome started) \<and>
   \<not> hasLine 0 started \<and>
   lineCounter (children (outcome started) ! 0) = 0 \<and>
   on_line 0 ''Notification handle = 0x000e value: 8e 01 3c'' ''2020-01-01T00:00:00.000Z''
       (outcome started) =
     Inr ((outcome started)\<lparr>children :=
        (children (outcome started))[0 := (children (outcome started) ! 0)\<lparr>lineCounter := 1\<rparr>]\<rparr>) \<and>
   sink (outcome started) = [GetRecord ''sensor/mijia'']"
proof -
  have h1: "run started fresh = Inr (outcome started)"
    unfolding outcome_def started_def by code_simp
  have h2: "0 < length (children (outcome started))"
    unfolding outcome_def started_def by code_simp
  have h3: "\<not> hasLine 0 started"
    by (simp add: hasLine_def started_def)
  have k: "sink (outcome started) = [GetRecord ''sensor/mijia'']"
    unfolding outcome_def started_def by code_simp
  from first_line_discarded [OF h1 h2, of
      "''Notification handle = 0x000e value: 8e 01 3c''" "''2020-01-01T00:00:00.000Z''"]
  show ?thesis
    using h1 h3 k by simp
qed

subsection \<open>C6: the error listener\<close>

text \<open>
  C6, as stated, ends with: the next poll cycle occurs only at the next tick of the
  interval timer. It fails when a retry is pending at the error event: the first child
  exits with code 1, which schedules the retry; the interval timer ticks before the
  retry fires and spawns child 1; the error event of child 1 sets ERROR and leaves the
  retry pending; the retry fires and spawns child 2, with no tick in between.
\<close>

theorem error_then_retry_counterexample:
  "run retryThenTick fresh = Inr (outcome retryThenTick) \<and>
   length (children (outcome retryThenTick)) = 2 \<and>
   pendingTimeouts (outcome retryThenTick) = [RETRY_TIMEOUT] \<and>
   run (retryThenTick @ [ProcError 1]) fresh = Inr (on_error 1 (outcome retryThenTick)) \<and>
   health (on_error 1 (outcome retryThenTick)) =
     Some (ERROR, Some ''unable to launch gatttool process'') \<and>
   enabled RetryFire (on_error 1 (outcome retryThenTick)) \<and>
   run (retryThenTick @ [ProcError 1, RetryFire]) fresh =
     Inr (outcome (retryThenTick @ [ProcError 1, RetryFire])) \<and>
   length (children (outcome (retryThenTick @ [ProcError 1, RetryFire]))) = 3 \<and>
   gattProcess (outcome (retryThenTick @ [ProcError 1, RetryFire])) = Some 2"
proof -
  have "run retryThenTick fresh = Inr (outcome retryThenTick)"
    unfolding outcome_def retryThenTick_def by code_simp
  moreover have "length (children (outcome retryThenTick)) = 2"
    unfolding outcome_def retryThenTick_def by code_simp
  moreover have "pendingTimeouts (outcome retryThenTick) = [RETRY_TIMEOUT]"
    unfolding outcome_def retryThenTick_def by code_simp
  moreover have "run (retryThenTick @ [ProcError 1]) fresh = Inr (on_error 1 (outcome retryThenTick))"
    unfolding outcome_def retryThenTick_def by code_simp
  moreover have "health (on_error 1 (outcome retryThenTick)) =
      Some (ERROR, Some ''unable to launch gatttool process'')"
    by (simp add: on_error_def setState_def)
  moreover have "enabled RetryFire (on_error 1 (outcome retryThenTick))"
    unfolding outcome_def retryThenTick_def by code_simp
  moreover have "run (retryThenTick @ [ProcError 1, RetryFire]) fresh =
      Inr (outcome (retryThenTick @ [ProcError 1, RetryFire]))"
    unfolding outcome_def retryThenTick_def by code_simp
  moreover have "length (children (outcome (retryThenTick @ [ProcError 1, RetryFire]))) = 3"
    unfolding outcome_def retryThenTick_def by code_simp
  moreover have "gattProcess (outcome (retryThenTick @ [ProcError 1, RetryFire])) = Some 2"
    unfolding outcome_def retryThenTick_def by code_simp
  ultimately show ?thesis
    by blast
qed

text \<open>
  C6, amended. The error listener of a child clears \<^verbatim>\<open>gattProcess\<close> and sets the health
  to ERROR with the message that the process could not be launched. It schedules
  nothing: the retry counter is not incremented and no timeout is set, and the timeouts
  that were pending stay pending. If none was pending, then whatever follows the error
  event, no child is spawned and no retry becomes pending before a tick of the interval
  timer, an exit event (whose listener can schedule a retry) or a new \<^verbatim>\<open>start\<close>.
\<close>

theorem error_schedules_nothing:
  "gattProcess (on_error p s) = None \<and>
   health (on_error p s) = Some (ERROR, Some ''unable to launch gatttool process'') \<and>
   retryCounter (on_error p s) = retryCounter s \<and>
   pendingTimeouts (on_error p s) = pendingTimeouts s \<and>
   intervalTimers (on_error p s) = intervalTimers s \<and>
   timer (on_error p s) = timer s \<and>
   length (children (on_error p s)) = length (children s) \<and>
   sink (on_error p s) = sink s \<and>
   enabled RetryFire (on_error p s) = (pendingTimeouts s \<noteq> []) \<and>
   enabled (Tick i) (on_error p s) = enabled (Tick i) s \<and>
   (pendingTimeouts s = [] \<and> run tr (on_error p s) = Inr s' \<and>
    (\<forall>e \<in> set tr. \<not> cycleSource e) \<longrightarrow>
      length (children s') = length (children s) \<and> pendingTimeouts s' = [])"
proof -
  have a: "pendingTimeouts (on_error p s) = pendingTimeouts s"
    "length (children (on_error p s)) = length (children s)"
    by (simp_all add: on_error_def setState_def updChild_def)
  have "length (children s') = length (children s) \<and> pendingTimeouts s' = []"
    if "pendingTimeouts s = []" and "run tr (on_error p s) = Inr s'"
      and "\<forall>e \<in> set tr. \<not> cycleSource e"
    using quiet_run [OF that(2,3)] that(1) a by simp
  then show ?thesis
    by (simp add: on_error_def setState_def updChild_def)
qed

text \<open>The first spawn of a started service fails: the health is ERROR, the counter is
  still 0 and no retry is pending; a late line, a second error event and a
  \<^verbatim>\<open>stop\<close> follow, and there is still one child and no retry.\<close>

theorem error_schedules_nothing_witness:
  "pendingTimeouts (outcome started) = [] \<and>
   health (on_error 0 (outcome started)) =
     Some (ERROR, Some ''unable to launch gatttool process'') \<and>
   retryCounter (on_error 0 (outcome started)) = 0 \<and>
   \<not> enabled RetryFire (on_error 0 (outcome started)) \<and>
   enabled (Tick 0) (on_error 0 (outcome started)) \<and>
   run [Line 0 ''connect error'' ''2020-01-01T00:00:01.000Z'', ProcError 0, Stop]
       (on_error 0 (outcome started)) =
     Inr (outcomeFrom [Line 0 ''connect error'' ''2020-01-01T00:00:01.000Z'', ProcError 0, Stop]
            (on_error 0 (outcome started))) \<and>
   length (children (outcomeFrom
       [Line 0 ''connect error'' ''2020-01-01T00:00:01.000Z'', ProcError 0, Stop]
       (on_error 0 (outcome started)))) = length (children (outcome started)) \<and>
   pendingTimeouts (outcomeFrom
       [Line 0 ''connect error'' ''2020-01-01T00:00:01.000Z'', ProcError 0, Stop]
       (on_error 0 (outcome started))) = []"
proof -
  have c: "retryCounter (outcome started) = 0"
    unfolding outcome_def started_def by code_simp
  have p: "pendingTimeouts (outcome started) = []"
    unfolding outcome_def started_def by code_simp
  have t: "enabled (Tick 0) (outcome started)"
    unfolding outcome_def started_def by code_simp
  have r: "run [Line 0 ''connect error'' ''2020-01-01T00:00:01.000Z'', ProcError 0, Stop]
       (on_error 0 (outcome started)) =
     Inr (outcomeFrom [Line 0 ''connect error'' ''2020-01-01T00:00:01.000Z'', ProcError 0, Stop]
            (on_error 0 (outcome started)))"
    unfolding outcome_def outcomeFrom_def started_def by code_simp
  have q: "\<forall>e \<in> set [Line 0 ''connect error'' ''2020-01-01T00:00:01.000Z'', ProcError 0, Stop].
      \<not> cycleSource e"
    by simp
  from error_schedules_nothing [of 0 "outcome started" 0
      "[Line 0 ''connect error'' ''2020-01-01T00:00:01.000Z'', ProcError 0, Stop]"
      "outcomeFrom [Line 0 ''connect error'' ''2020-01-01T00:00:01.000Z'', ProcError 0, Stop]
         (on_error 0 (outcome started))"]
  show ?thesis
    using c p t r q by simp
qed

subsection \<open>C7: update spawns whatever gattProcess holds\<close>

text \<open>
  C7, as stated, says that \<^verbatim>\<open>update\<close> never spawns while \<^verbatim>\<open>gattProcess\<close> is set and
  that at most one child is alive. \<^verbatim>\<open>update\<close> does not read \<^verbatim>\<open>gattProcess\<close>: when
  the interval timer ticks while the child of \<^verbatim>\<open>start\<close> is running, a second child
  is spawned, both are alive and \<^verbatim>\<open>gattProcess\<close> holds the second.
\<close>

theorem second_spawn_counterexample:
  "run started fresh = Inr (outcome started) \<and>
   gattProcess (outcome started) = Some 0 \<and>
   \<not> exited (children (outcome started) ! 0) \<and>
   enabled (Tick 0) (outcome started) \<and>
   run (started @ [Tick 0]) fresh = Inr (fst (update (outcome started))) \<and>
   length (children (fst (update (outcome started)))) = 2 \<and>
   \<not> exited (children (fst (update (outcome started))) ! 0) \<and>
   \<not> exited (children (fst (update (outcome started))) ! 1) \<and>
   gattProcess (fst (update (outcome started))) = Some 1"
  unfolding outcome_def started_def by code_simp

text \<open>
  C7, amended. In every session reached by an execution, \<^verbatim>\<open>gattProcess\<close> holds at most
  one handle, and when it is set it is the child spawned last, whose exit event has not
  been emitted. \<^verbatim>\<open>update\<close> does not read \<^verbatim>\<open>gattProcess\<close>: the children it leaves and
  the exception it raises, if any, are the same whatever the slot holds. So a cycle that
  a timer starts while a child is running can spawn a second child, and then more than
  one child is alive.
\<close>

theorem slot_holds_last_spawned:
  assumes "run tr fresh = Inr s"
  shows "(\<forall>p. gattProcess s = Some p \<longrightarrow>
            Suc p = length (children s) \<and> \<not> exited (children s ! p)) \<and>
         children (fst (update (s\<lparr>gattProcess := g\<rparr>))) = children (fst (update s)) \<and>
         snd (update (s\<lparr>gattProcess := g\<rparr>)) = snd (update s)"
proof -
  have "slotLive s"
    using slotLive_run [OF slotLive_fresh assms] .
  then show ?thesis
    by (simp add: slotLive_def update_def spawn_def setState_def argv_def)
qed

theorem slot_holds_last_spawned_witness:
  "run started fresh = Inr (outcome started) \<and>
   gattProcess (outcome started) = Some 0 \<and>
   Suc 0 = length (children (outcome started)) \<and>
   \<not> exited (children (outcome started) ! 0) \<and>
   children (fst (update ((outcome started)\<lparr>gattProcess := None\<rparr>))) =
     children (fst (update (outcome started))) \<and>
   length (children (fst (update (outcome started)))) = 2"
proof -
  have h1: "run started fresh = Inr (outcome started)"
    unfolding outcome_def started_def by code_simp
  have h2: "gattProcess (outcome started) = Some 0"
    unfolding outcome_def started_def by code_simp
  have h3: "length (children (fst (update (outcome started)))) = 2"
    unfolding outcome_def started_def by code_simp
  from slot_holds_last_spawned [OF h1, of None] show ?thesis
    using h1 h2 h3 by simp
qed

subsection \<open>C8: a retry that fires after stop\<close>

text \<open>
  C8. \<^verbatim>\<open>stop\<close> leaves the pending timeouts as they are. So there is an execution in
  which a poll cycle runs after \<^verbatim>\<open>stop\<close> has finished: the child exits with code 1,
  which schedules the retry; \<^verbatim>\<open>stop\<close> runs, its promise is resolved, the interval
  timer is cleared and the health is INACTIVE; the retry is still enabled, fires, and
  \<^verbatim>\<open>update\<close> spawns a second child and sets the health to BUSY.
\<close>

theorem retry_fires_after_stop:
  "pendingTimeouts (fst (stop s)) = pendingTimeouts s \<and>
   run afterFailure fresh = Inr (outcome afterFailure) \<and>
   pendingTimeouts (outcome afterFailure) = [RETRY_TIMEOUT] \<and>
   run (afterFailure @ [Stop]) fresh = Inr (fst (stop (outcome afterFailure))) \<and>
   snd (stop (outcome afterFailure)) = Resolved \<and>
   health (fst (stop (outcome afterFailure))) = Some (INACTIVE, None) \<and>
   intervalTimers (fst (stop (outcome afterFailure))) = [(300000, False)] \<and>
   length (children (fst (stop (outcome afterFailure)))) = 1 \<and>
   enabled RetryFire (fst (stop (outcome afterFailure))) \<and>
   run (afterFailure @ [Stop, RetryFire]) fresh =
     Inr (outcome (afterFailure @ [Stop, RetryFire])) \<and>
   length (children (outcome (afterFailure @ [Stop, RetryFire]))) = 2 \<and>
   gattProcess (outcome (afterFailure @ [Stop, RetryFire])) = Some 1 \<and>
   health (outcome (afterFailure @ [Stop, RetryFire])) =
     Some (BUSY, Some ''updating values (retry 1) ...'')"
proof -
  have "pendingTimeouts (fst (stop s)) = pendingTimeouts s"
    by (simp add: stop_def Let_def closeChildProcess_def updChild_def clearInterval_def
        setState_def split: option.splits)
  moreover have "run afterFailure fresh = Inr (outcome afterFailure)"
    unfolding outcome_def afterFailure_def by code_simp
  moreover have "pendingTimeouts (outcome afterFailure) = [RETRY_TIMEOUT]"
    unfolding outcome_def afterFailure_def by code_simp
  moreover have "run (afterFailure @ [Stop]) fresh = Inr (fst (stop (outcome afterFailure)))"
    unfolding outcome_def afterFailure_def by code_simp
  moreover have "snd (stop (outcome afterFailure)) = Resolved"
    unfolding outcome_def afterFailure_def by code_simp
  moreover have "health (fst (stop (outcome afterFailure))) = Some (INACTIVE, None)"
    unfolding outcome_def afterFailure_def by code_simp
  moreover have "intervalTimers (fst (stop (outcome afterFailure))) = [(300000, False)]"
    unfolding outcome_def afterFailure_def by code_simp
  moreover have "length (children (fst (stop (outcome afterFailure)))) = 1"
    unfolding outcome_def afterFailure_def by code_simp
  moreover have "enabled RetryFire (fst (stop (outcome afterFailure)))"
    unfolding outcome_def afterFailure_def by code_simp
  moreover have "run (afterFailure @ [Stop, RetryFire]) fresh =
      Inr (outcome (afterFailure @ [Stop, RetryFire]))"
    unfolding outcome_def afterFailure_def by code_simp
  moreover have "length (children (outcome (afterFailure @ [Stop, RetryFire]))) = 2"
    unfolding outcome_def afterFailure_def by code_simp
  moreover have "gattProcess (outcome (afterFailure @ [Stop, RetryFire])) = Some 1"
    unfolding outcome_def afterFailure_def by code_simp
  moreover have "health (outcome (afterFailure @ [Stop, RetryFire])) =
      Some (BUSY, Some ''updating values (retry 1) ...'')"
    unfolding outcome_def afterFailure_def by code_simp
  ultimately show ?thesis
    by blast
qed

subsection \<open>C9: what a malformed line does\<close>




subsection \<open>C10: every data line publishes\<close>

text \<open>
  C10, as stated, says that every data line sends its termination request to the
  subprocess of its own cycle. The request goes to the child in \<^verbatim>\<open>gattProcess\<close>. When
  the interval timer has ticked after the first line of child 0, a data line of child 0
  is published and the interrupt goes to child 1; child 0 gets none. When child 0 has
  exited after child 1 was spawned, \<^verbatim>\<open>gattProcess\<close> is empty and a data line of child 1
  is published with no interrupt for anyone.
\<close>

theorem interrupt_elsewhere_counterexample:
  "run (overlapped @
      [Line 0 ''Notification handle = 0x000e value: 8e 01 3c'' ''2020-01-01T00:05:01.000Z''])
     fresh =
     Inr (outcome (overlapped @
      [Line 0 ''Notification handle = 0x000e value: 8e 01 3c'' ''2020-01-01T00:05:01.000Z''])) \<and>
   setCalls (sink (outcome (overlapped @
      [Line 0 ''Notification handle = 0x000e value: 8e 01 3c'' ''2020-01-01T00:05:01.000Z'']))) = 1 \<and>
   sigints (children (outcome (overlapped @
      [Line 0 ''Notification handle = 0x000e value: 8e 01 3c'' ''2020-01-01T00:05:01.000Z''])) ! 0) = 0 \<and>
   sigints (children (outcome (overlapped @
      [Line 0 ''Notification handle = 0x000e value: 8e 01 3c'' ''2020-01-01T00:05:01.000Z''])) ! 1) = 1 \<and>
   \<not> exited (children (outcome (overlapped @
      [Line 0 ''Notification handle = 0x000e value: 8e 01 3c'' ''2020-01-01T00:05:01.000Z''])) ! 0) \<and>
   run (slotCleared @
      [Line 1 ''Notification handle = 0x000e value: 8e 01 3c'' ''2020-01-01T00:05:01.000Z''])
     fresh =
     Inr (outcome (slotCleared @
      [Line 1 ''Notification handle = 0x000e value: 8e 01 3c'' ''2020-01-01T00:05:01.000Z''])) \<and>
   gattProcess (outcome slotCleared) = None \<and>
   setCalls (sink (outcome (slotCleared @
      [Line 1 ''Notification handle = 0x000e value: 8e 01 3c'' ''2020-01-01T00:05:01.000Z'']))) = 1 \<and>
   sigints (children (outcome (slotCleared @
      [Line 1 ''Notification handle = 0x000e value: 8e 01 3c'' ''2020-01-01T00:05:01.000Z''])) ! 0) = 0 \<and>
   sigints (children (outcome (slotCleared @
      [Line 1 ''Notification handle = 0x000e value: 8e 01 3c'' ''2020-01-01T00:05:01.000Z''])) ! 1) = 0 \<and>
   \<not> exited (children (outcome (slotCleared @
      [Line 1 ''Notification handle = 0x000e value: 8e 01 3c'' ''2020-01-01T00:05:01.000Z''])) ! 1)"
  unfolding outcome_def overlapped_def slotCleared_def by code_simp

text \<open>
  C10, amended. Publishes are not capped at one per cycle. Along every execution, every
  line event of a child after its first makes exactly one \<^verbatim>\<open>set\<close> call with the reading
  decoded from the line, and one termination request, which goes to the child that
  \<^verbatim>\<open>gattProcess\<close> holds at that moment: the child of the line's own cycle as long as no
  later spawn has overwritten the slot and no exit or error event has cleared it, and
  nobody when the slot is empty. No other event makes a \<^verbatim>\<open>set\<close> call: the number of
  \<^verbatim>\<open>set\<close> calls is the number of line events less one per child that has had a line,
  so a child that prints a first line and \<open>n\<close> more accounts for exactly \<open>n\<close> of them.
\<close>

theorem every_data_line_publishes:
  assumes "run tr fresh = Inr s"
  shows "setCalls (sink s) + firstLinesSeen s = length (filter isLineEvent tr) \<and>
         (hasLine p tr \<longrightarrow>
            step (Line p line now) s =
              Inr (s\<lparr>sink := sink s @ [RecordSet (decode line now)],
                     children :=
                       (case gattProcess s of
                          None \<Rightarrow> children s
                        | Some q \<Rightarrow> (children s)[q := (children s ! q)
                            \<lparr>exitOnce := Suc (exitOnce (children s ! q)),
                             sigints := Suc (sigints (children s ! q))\<rparr>])\<rparr>))"
proof -
  have "step (Line p line now) s =
      Inr (s\<lparr>sink := sink s @ [RecordSet (decode line now)],
             children :=
               (case gattProcess s of
                  None \<Rightarrow> children s
                | Some q \<Rightarrow> (children s)[q := (children s ! q)
                    \<lparr>exitOnce := Suc (exitOnce (children s ! q)),
                     sigints := Suc (sigints (children s ! q))\<rparr>])\<rparr>)"
    if h: "hasLine p tr"
  proof -
    have p: "p < length (children s)"
      using hasLine_spawned [OF assms h] .
    have c: "lineCounter (children s ! p) \<noteq> 0"
      using lineCounter_trace [OF assms p] h by simp
    have "acquired s"
      using acquired_run [OF acquired_fresh assms] .
    moreover have "children s \<noteq> []" using p by auto
    ultimately obtain r where r: "recordH s = Some r"
      by (auto simp: acquired_def)
    show ?thesis
      using data_line_effect [OF r c, of line now] p by (simp add: step_def)
  qed
  then show ?thesis
    using run_count [OF assms] by simp
qed

text \<open>After the first line of the only child, one line event and no publish; the next
  line is published and the child, which \<^verbatim>\<open>gattProcess\<close> holds, is sent the
  interrupt.\<close>

theorem every_data_line_publishes_witness:
  "run headerSeen fresh = Inr (outcome headerSeen) \<and>
   hasLine 0 headerSeen \<and>
   length (filter isLineEvent headerSeen) = 1 \<and>
   setCalls (sink (outcome headerSeen)) + firstLinesSeen (outcome headerSeen) = 1 \<and>
   gattProcess (outcome headerSeen) = Some 0 \<and>
   step (Line 0 ''Notification handle = 0x000e value: 8e 01 3c'' ''2020-01-01T00:00:01.000Z'')
       (outcome headerSeen) =
     Inr ((outcome headerSeen)
       \<lparr>sink := sink (outcome headerSeen) @
          [RecordSet (decode ''Notification handle = 0x000e value: 8e 01 3c''
             ''2020-01-01T00:00:01.000Z'')],
        children := (children (outcome headerSeen))[0 := (children (outcome headerSeen) ! 0)
           \<lparr>exitOnce := Suc (exitOnce (children (outcome headerSeen) ! 0)),
            sigints := Suc (sigints (children (outcome headerSeen) ! 0))\<rparr>]\<rparr>)"
proof -
  have h1: "run headerSeen fresh = Inr (outcome headerSeen)"
    unfolding outcome_def headerSeen_def by code_simp
  have h2: "hasLine 0 headerSeen"
    by (auto simp: hasLine_def headerSeen_def)
  have h3: "gattProcess (outcome headerSeen) = Some 0"
    unfolding outcome_def headerSeen_def by code_simp
  have h4: "length (filter isLineEvent headerSeen) = 1"
    by (simp add: headerSeen_def)
  from every_data_line_publishes [OF h1, of 0
      "''Notification handle = 0x000e value: 8e 01 3c''" "''2020-01-01T00:00:01.000Z''"]
  show ?thesis
    using h1 h2 h3 h4 by simp
qed

end
